theory Spec2Isabelle
  imports Complex_Main "HOL-Library.Multiset"
begin

section \<open>Numbers\<close>

text \<open>
  The program computes with IEEE doubles.  A double is modelled by its exact real value,
  extended with the negative zero, the two infinities and NaN, so that a division by zero
  or a logarithm of zero has the value numpy gives it.  \<open>Fin 0\<close> is the positive zero.
  The operations \<open>fl_add\<close>, \<open>fl_mul\<close>, ... below give the exact result; \<open>rnd\<close> rounds
  it to the nearest double.  The Steinhart-Hart model and the fit are carried in exact
  arithmetic; the unit conversion, whose round trip depends on the rounding, rounds after
  every operation.
\<close>

datatype fl = Fin real | NZero | PInf | NInf | NaN

fun sign_bit :: "fl \<Rightarrow> bool" where
  "sign_bit (Fin x) = (x < 0)"
| "sign_bit NZero = True"
| "sign_bit PInf = False"
| "sign_bit NInf = True"
| "sign_bit NaN = False"

fun is_zero :: "fl \<Rightarrow> bool" where
  "is_zero (Fin x) = (x = 0)"
| "is_zero NZero = True"
| "is_zero PInf = False"
| "is_zero NInf = False"
| "is_zero NaN = False"

fun is_inf :: "fl \<Rightarrow> bool" where
  "is_inf (Fin x) = False"
| "is_inf NZero = False"
| "is_inf PInf = True"
| "is_inf NInf = True"
| "is_inf NaN = False"

fun real_of :: "fl \<Rightarrow> real" where
  "real_of (Fin x) = x"
| "real_of NZero = 0"
| "real_of PInf = 0"
| "real_of NInf = 0"
| "real_of NaN = 0"

definition zero_of :: "bool \<Rightarrow> fl" where
  "zero_of s = (if s then NZero else Fin 0)"

definition inf_of :: "bool \<Rightarrow> fl" where
  "inf_of s = (if s then NInf else PInf)"

definition fin_signed :: "bool \<Rightarrow> real \<Rightarrow> fl" where
  "fin_signed s x = (if x = 0 then zero_of s else Fin x)"

fun fl_neg :: "fl \<Rightarrow> fl" where
  "fl_neg (Fin x) = (if x = 0 then NZero else Fin (- x))"
| "fl_neg NZero = Fin 0"
| "fl_neg PInf = NInf"
| "fl_neg NInf = PInf"
| "fl_neg NaN = NaN"

fun fl_add :: "fl \<Rightarrow> fl \<Rightarrow> fl" where
  "fl_add NaN b = NaN"
| "fl_add a NaN = NaN"
| "fl_add PInf NInf = NaN"
| "fl_add NInf PInf = NaN"
| "fl_add PInf b = PInf"
| "fl_add NInf b = NInf"
| "fl_add a PInf = PInf"
| "fl_add a NInf = NInf"
| "fl_add NZero NZero = NZero"
| "fl_add NZero (Fin y) = Fin y"
| "fl_add (Fin x) NZero = Fin x"
| "fl_add (Fin x) (Fin y) = Fin (x + y)"

definition fl_sub :: "fl \<Rightarrow> fl \<Rightarrow> fl" where
  "fl_sub a b = fl_add a (fl_neg b)"

definition fl_mul :: "fl \<Rightarrow> fl \<Rightarrow> fl" where
  "fl_mul a b =
     (let s = (sign_bit a \<noteq> sign_bit b) in
      if a = NaN \<or> b = NaN then NaN
      else if (is_zero a \<and> is_inf b) \<or> (is_inf a \<and> is_zero b) then NaN
      else if is_inf a \<or> is_inf b then inf_of s
      else fin_signed s (real_of a * real_of b))"

definition fl_div :: "fl \<Rightarrow> fl \<Rightarrow> fl" where
  "fl_div a b =
     (let s = (sign_bit a \<noteq> sign_bit b) in
      if a = NaN \<or> b = NaN then NaN
      else if is_inf a \<and> is_inf b then NaN
      else if is_zero a \<and> is_zero b then NaN
      else if is_inf a then inf_of s
      else if is_inf b then zero_of s
      else if is_zero b then inf_of s
      else fin_signed s (real_of a / real_of b))"

text \<open>\<open>np.log\<close>: minus infinity at a zero, NaN below zero.\<close>

fun fl_ln :: "fl \<Rightarrow> fl" where
  "fl_ln (Fin x) = (if 0 < x then Fin (ln x) else if x = 0 then NInf else NaN)"
| "fl_ln NZero = NInf"
| "fl_ln PInf = PInf"
| "fl_ln NInf = NaN"
| "fl_ln NaN = NaN"

text \<open>A double raised to a Python integer (C \<open>pow\<close>): anything to the power 0 is 1.\<close>

definition real_powi :: "real \<Rightarrow> int \<Rightarrow> real" where
  "real_powi x n = (if 0 \<le> n then x ^ nat n else 1 / x ^ nat (- n))"

definition fl_pow :: "fl \<Rightarrow> int \<Rightarrow> fl" where
  "fl_pow a n =
     (if n = 0 then Fin 1
      else case a of
        NaN \<Rightarrow> NaN
      | Fin x \<Rightarrow> (if x = 0 then (if 0 < n then Fin 0 else PInf) else Fin (real_powi x n))
      | NZero \<Rightarrow> (if 0 < n then (if odd n then NZero else Fin 0)
                  else (if odd n then NInf else PInf))
      | PInf \<Rightarrow> (if 0 < n then PInf else Fin 0)
      | NInf \<Rightarrow> (if 0 < n then (if odd n then NInf else PInf)
                 else (if odd n then NZero else Fin 0)))"

fun fl_abs :: "fl \<Rightarrow> fl" where
  "fl_abs (Fin x) = Fin \<bar>x\<bar>"
| "fl_abs NZero = Fin 0"
| "fl_abs PInf = PInf"
| "fl_abs NInf = PInf"
| "fl_abs NaN = NaN"

text \<open>The comparison \<open>a < b\<close>: false as soon as one side is NaN; the zeros are equal.\<close>

fun fl_less :: "fl \<Rightarrow> fl \<Rightarrow> bool" where
  "fl_less NaN b = False"
| "fl_less a NaN = False"
| "fl_less PInf b = False"
| "fl_less a NInf = False"
| "fl_less NInf b = True"
| "fl_less a PInf = True"
| "fl_less a b = (real_of a < real_of b)"

text \<open>\<open>np.round\<close> rounds to the nearest integer, a tie to the even one.\<close>

definition round_half_even :: "real \<Rightarrow> int" where
  "round_half_even x =
     (let f = \<lfloor>x\<rfloor>; d = x - of_int f in
      if d < 1 / 2 then f else if 1 / 2 < d then f + 1 else if even f then f else f + 1)"

fun fl_round :: "fl \<Rightarrow> fl" where
  "fl_round (Fin x) = fin_signed (x < 0) (of_int (round_half_even x))"
| "fl_round NZero = NZero"
| "fl_round PInf = PInf"
| "fl_round NInf = NInf"
| "fl_round NaN = NaN"

text \<open>
  Rounding to the nearest double, a tie to the even significand: 53 significant bits, the
  spacing \<open>2 ^ -1074\<close> below \<open>2 ^ -1022\<close>, an infinity from \<open>2 ^ 1024\<close> on.
\<close>

definition round_double :: "real \<Rightarrow> real" where
  "round_double x =
     (if x = 0 then 0
      else (let k = max (\<lfloor>log 2 \<bar>x\<bar>\<rfloor> - 52) (- 1074)
            in of_int (round_half_even (x / 2 powi k)) * 2 powi k))"

fun rnd :: "fl \<Rightarrow> fl" where
  "rnd (Fin x) =
     (let y = round_double x
      in if 2 ^ 1024 \<le> \<bar>y\<bar> then inf_of (x < 0) else fin_signed (x < 0) y)"
| "rnd NZero = NZero"
| "rnd PInf = PInf"
| "rnd NInf = NInf"
| "rnd NaN = NaN"

text \<open>The arithmetic of float64 arrays: the exact result, rounded.\<close>

definition f64_add :: "fl \<Rightarrow> fl \<Rightarrow> fl" where
  "f64_add a b = rnd (fl_add a b)"

definition f64_sub :: "fl \<Rightarrow> fl \<Rightarrow> fl" where
  "f64_sub a b = rnd (fl_sub a b)"

definition f64_mul :: "fl \<Rightarrow> fl \<Rightarrow> fl" where
  "f64_mul a b = rnd (fl_mul a b)"

definition f64_div :: "fl \<Rightarrow> fl \<Rightarrow> fl" where
  "f64_div a b = rnd (fl_div a b)"

text \<open>
  Bookkeeping for rounding errors: \<open>near k a b\<close> says that the positive numbers \<open>a\<close>
  and \<open>b\<close> differ by at most \<open>k\<close> factors \<open>1 - 2 ^ -53\<close>, in either direction.
\<close>

definition unit_loss :: real where
  "unit_loss = 1 - 1 / 2 ^ 53"

definition near :: "nat \<Rightarrow> real \<Rightarrow> real \<Rightarrow> bool" where
  "near k a b \<longleftrightarrow> b * unit_loss ^ k \<le> a \<and> a * unit_loss ^ k \<le> b"

text \<open>
  A scalar is a Python \<open>float\<close> or a numpy \<open>float64\<close>.  Both hold a double; they differ
  in the division by zero, which raises on two Python floats and gives an infinity or NaN
  (with a warning) as soon as one operand is a numpy value.
\<close>

datatype scalar = PyFloat fl | NpFloat fl

datatype error = AssertionError string | ZeroDivisionError | OverflowError | LinAlgError

fun val :: "scalar \<Rightarrow> fl" where
  "val (PyFloat x) = x"
| "val (NpFloat x) = x"

fun is_py :: "scalar \<Rightarrow> bool" where
  "is_py (PyFloat x) = True"
| "is_py (NpFloat x) = False"

definition mk_scalar :: "bool \<Rightarrow> fl \<Rightarrow> scalar" where
  "mk_scalar py x = (if py then PyFloat x else NpFloat x)"

definition py_add :: "scalar \<Rightarrow> scalar \<Rightarrow> scalar" where
  "py_add a b = mk_scalar (is_py a \<and> is_py b) (fl_add (val a) (val b))"

definition py_sub :: "scalar \<Rightarrow> scalar \<Rightarrow> scalar" where
  "py_sub a b = mk_scalar (is_py a \<and> is_py b) (fl_sub (val a) (val b))"

definition py_mul :: "scalar \<Rightarrow> scalar \<Rightarrow> scalar" where
  "py_mul a b = mk_scalar (is_py a \<and> is_py b) (fl_mul (val a) (val b))"

definition py_div :: "scalar \<Rightarrow> scalar \<Rightarrow> error + scalar" where
  "py_div a b =
     (if is_py a \<and> is_py b
      then (if is_zero (val b) then Inl ZeroDivisionError
            else Inr (PyFloat (fl_div (val a) (val b))))
      else Inr (NpFloat (fl_div (val a) (val b))))"

definition py_neg :: "scalar \<Rightarrow> scalar" where
  "py_neg a = mk_scalar (is_py a) (fl_neg (val a))"

text \<open>\<open>x ** 2\<close>, the only power taken of a value that may be a Python float.\<close>

definition py_square :: "scalar \<Rightarrow> scalar" where
  "py_square a = mk_scalar (is_py a) (fl_pow (val a) 2)"

definition np_log :: "scalar \<Rightarrow> scalar" where
  "np_log a = NpFloat (fl_ln (val a))"

text \<open>A numpy value raised to a Python integer.\<close>

definition np_pow :: "scalar \<Rightarrow> int \<Rightarrow> scalar" where
  "np_pow a n = NpFloat (fl_pow (val a) n)"

text \<open>The builtin \<open>max(a, b)\<close> keeps \<open>a\<close> unless \<open>b > a\<close>.\<close>

definition py_max :: "scalar \<Rightarrow> scalar \<Rightarrow> scalar" where
  "py_max a b = (if fl_less (val a) (val b) then b else a)"

section \<open>The Steinhart-Hart model (steinhart\_hart\_ntc.py)\<close>

text \<open>
  Coefficients, temperatures and tolerances enter only through operations with a numpy
  value or through comparisons, so they are carried as doubles; the resistance, the
  initial guess and the floor keep their Python/numpy tag.
\<close>

definition sh_p_term :: "scalar \<Rightarrow> scalar \<Rightarrow> fl \<times> int \<Rightarrow> scalar" where
  "sh_p_term resistance inv_temp cp =
     py_add inv_temp (py_mul (PyFloat (fst cp)) (np_pow (np_log resistance) (snd cp)))"

definition sh_p :: "scalar \<Rightarrow> fl list \<Rightarrow> int list \<Rightarrow> scalar" where
  "sh_p resistance coefficients terms =
     foldl (sh_p_term resistance) (PyFloat (Fin 0)) (zip coefficients terms)"

definition sh_dp_dr_term :: "scalar \<Rightarrow> scalar \<Rightarrow> fl \<times> int \<Rightarrow> error + scalar" where
  "sh_dp_dr_term resistance df_dr cp =
     (let c = fst cp; p = snd cp in
      if 0 < p then
        (case py_div (PyFloat (Fin 1)) resistance of
           Inl e \<Rightarrow> Inl e
         | Inr q \<Rightarrow>
             Inr (py_add df_dr
                   (py_mul (py_mul (py_mul (PyFloat c) (PyFloat (Fin (of_int p))))
                                   (np_pow (np_log resistance) (p - 1))) q)))
      else Inr df_dr)"

fun sh_dp_dr_loop :: "scalar \<Rightarrow> scalar \<Rightarrow> (fl \<times> int) list \<Rightarrow> error + scalar" where
  "sh_dp_dr_loop resistance df_dr [] = Inr df_dr"
| "sh_dp_dr_loop resistance df_dr (cp # cps) =
     (case sh_dp_dr_term resistance df_dr cp of
        Inl e \<Rightarrow> Inl e
      | Inr d \<Rightarrow> sh_dp_dr_loop resistance d cps)"

definition sh_dp_dr :: "scalar \<Rightarrow> fl list \<Rightarrow> int list \<Rightarrow> error + scalar" where
  "sh_dp_dr resistance coefficients terms =
     sh_dp_dr_loop resistance (PyFloat (Fin 0)) (zip coefficients terms)"

definition length_msg :: string where
  "length_msg = ''Number of coefficients and terms must have the same length''"

definition steinhart_hart :: "scalar \<Rightarrow> fl list \<Rightarrow> int list \<Rightarrow> bool \<Rightarrow> error + scalar" where
  "steinhart_hart resistance coefficients terms temp_in_celsius =
     (if length coefficients \<noteq> length terms then Inl (AssertionError length_msg)
      else case py_div (PyFloat (Fin 1)) (sh_p resistance coefficients terms) of
        Inl e \<Rightarrow> Inl e
      | Inr temp \<Rightarrow>
          Inr (if temp_in_celsius then py_sub temp (PyFloat (Fin (27315 / 100))) else temp))"

definition steinhart_hart_derivative ::
    "scalar \<Rightarrow> fl list \<Rightarrow> int list \<Rightarrow> bool \<Rightarrow> error + scalar" where
  "steinhart_hart_derivative resistance coefficients terms temp_in_celsius =
     (if length coefficients \<noteq> length terms then Inl (AssertionError length_msg)
      else case sh_dp_dr resistance coefficients terms of
        Inl e \<Rightarrow> Inl e
      | Inr dp_dr \<Rightarrow>
          py_div (py_neg dp_dr) (py_square (sh_p resistance coefficients terms)))"

text \<open>The function whose root is sought: \<open>f(r) = steinhart_hart(r) - temperature\<close>.\<close>

definition residual :: "fl \<Rightarrow> fl list \<Rightarrow> int list \<Rightarrow> bool \<Rightarrow> scalar \<Rightarrow> error + scalar" where
  "residual temperature coefficients terms temp_in_celsius r =
     (case steinhart_hart r coefficients terms temp_in_celsius of
        Inl e \<Rightarrow> Inl e
      | Inr t \<Rightarrow> Inr (py_sub t (NpFloat temperature)))"

text \<open>
  One pass through the body of the loop of \<open>inverse_steinhart_hart\<close>: the residual
  \<open>f\<close> at \<open>r\<close> and the updated \<open>r\<close>.
\<close>

definition newton_step ::
    "fl \<Rightarrow> fl list \<Rightarrow> int list \<Rightarrow> bool \<Rightarrow> scalar \<Rightarrow> scalar \<Rightarrow> error + (scalar \<times> scalar)" where
  "newton_step temperature coefficients terms temp_in_celsius min_resistance r =
     (case residual temperature coefficients terms temp_in_celsius r of
        Inl e \<Rightarrow> Inl e
      | Inr f \<Rightarrow>
          (case steinhart_hart_derivative r coefficients terms temp_in_celsius of
             Inl e \<Rightarrow> Inl e
           | Inr df_dr \<Rightarrow>
               (case py_div f df_dr of
                  Inl e \<Rightarrow> Inl e
                | Inr q \<Rightarrow> Inr (f, py_max (py_sub r q) min_resistance))))"

fun newton_loop ::
    "nat \<Rightarrow> fl \<Rightarrow> fl list \<Rightarrow> int list \<Rightarrow> bool \<Rightarrow> scalar \<Rightarrow> fl \<Rightarrow> scalar \<Rightarrow> error + scalar" where
  "newton_loop 0 temperature coefficients terms temp_in_celsius min_resistance tolerance r =
     Inr r"
| "newton_loop (Suc n) temperature coefficients terms temp_in_celsius min_resistance tolerance r =
     (case newton_step temperature coefficients terms temp_in_celsius min_resistance r of
        Inl e \<Rightarrow> Inl e
      | Inr (f, r') \<Rightarrow>
          if fl_less (fl_abs (val f)) tolerance then Inr r'
          else newton_loop n temperature coefficients terms temp_in_celsius
                 min_resistance tolerance r')"

definition inverse_steinhart_hart ::
    "fl \<Rightarrow> fl list \<Rightarrow> int list \<Rightarrow> scalar \<Rightarrow> bool \<Rightarrow> scalar \<Rightarrow> int \<Rightarrow> fl \<Rightarrow> error + scalar" where
  "inverse_steinhart_hart temperature coefficients terms initial_guess temp_in_celsius
       min_resistance max_iterations tolerance =
     (if length coefficients \<noteq> length terms then Inl (AssertionError length_msg)
      else newton_loop (nat max_iterations) temperature coefficients terms temp_in_celsius
             min_resistance tolerance initial_guess)"

text \<open>
  The values \<open>r\<close> takes after each update of the same loop, in order, up to the pass
  that raises, meets the tolerance or is the last one.
\<close>

fun newton_iterates ::
    "nat \<Rightarrow> fl \<Rightarrow> fl list \<Rightarrow> int list \<Rightarrow> bool \<Rightarrow> scalar \<Rightarrow> fl \<Rightarrow> scalar \<Rightarrow> scalar list" where
  "newton_iterates 0 temperature coefficients terms temp_in_celsius min_resistance tolerance r =
     []"
| "newton_iterates (Suc n) temperature coefficients terms temp_in_celsius min_resistance
       tolerance r =
     (case newton_step temperature coefficients terms temp_in_celsius min_resistance r of
        Inl e \<Rightarrow> []
      | Inr (f, r') \<Rightarrow>
          r' # (if fl_less (fl_abs (val f)) tolerance then []
                else newton_iterates n temperature coefficients terms temp_in_celsius
                       min_resistance tolerance r'))"

text \<open>The trace of \<open>inverse_steinhart_hart\<close> on the same arguments.\<close>

definition inverse_iterates ::
    "fl \<Rightarrow> fl list \<Rightarrow> int list \<Rightarrow> scalar \<Rightarrow> bool \<Rightarrow> scalar \<Rightarrow> int \<Rightarrow> fl \<Rightarrow> scalar list" where
  "inverse_iterates temperature coefficients terms initial_guess temp_in_celsius
       min_resistance max_iterations tolerance =
     newton_iterates (nat max_iterations) temperature coefficients terms temp_in_celsius
       min_resistance tolerance initial_guess"

text \<open>
  \<open>np.linalg.lstsq\<close> is a library routine: the fit takes it as a parameter.  It is
  given the design matrix (a list of rows) and the right-hand side, and returns the
  coefficient vector or raises.
\<close>

type_synonym lstsq_solver = "fl list list \<Rightarrow> fl list \<Rightarrow> error + fl list"

definition set_column :: "fl list list \<Rightarrow> nat \<Rightarrow> fl list \<Rightarrow> fl list list" where
  "set_column A i col = map (\<lambda>(row, v). row[i := v]) (zip A col)"

definition design_matrix :: "fl list \<Rightarrow> int list \<Rightarrow> fl list list" where
  "design_matrix log_res powers =
     foldl (\<lambda>A i. set_column A i (map (\<lambda>l. fl_pow l (powers ! i)) log_res))
       (replicate (length log_res) (replicate (length powers) (Fin 0)))
       [0 ..< length powers]"

definition pairs_msg :: string where
  "pairs_msg = ''Number of temperature and resistance pairs must be the same''"

definition count_msg :: string where
  "count_msg = ''Number of temperature and resistance pairs must be at least the number of coefficients + 1 (constant + number of polynomial terms)''"

definition coeff_msg :: string where
  "coeff_msg = ''Number of coefficients must be at least 1''"

definition inv_temps :: "fl list \<Rightarrow> bool \<Rightarrow> fl list" where
  "inv_temps temperature temp_in_celsius =
     map (\<lambda>t. fl_div (Fin 1)
                 (if temp_in_celsius then fl_add t (Fin (27315 / 100)) else t)) temperature"

definition fit_steinhart_hart ::
    "lstsq_solver \<Rightarrow> fl list \<Rightarrow> fl list \<Rightarrow> int list \<Rightarrow> bool \<Rightarrow> error + fl list" where
  "fit_steinhart_hart lstsq temperature resistance powers temp_in_celsius =
     (if length temperature \<noteq> length resistance then Inl (AssertionError pairs_msg)
      else if \<not> length powers \<le> length temperature then Inl (AssertionError count_msg)
      else if \<not> 1 \<le> length powers then Inl (AssertionError coeff_msg)
      else lstsq (design_matrix (map fl_ln resistance) powers)
                 (inv_temps temperature temp_in_celsius))"

section \<open>Unit conversion and tables (ntc\_lut.py)\<close>

text \<open>
  \<open>2 ** adc_resolution - 1\<close> as it enters the array arithmetic.  For a resolution that
  is not negative it is a Python integer, converted to a double (to the nearest one; from
  1024 bits on the conversion raises); for a negative resolution \<open>2 ** adc_resolution\<close>
  is already a float.
\<close>

definition full_scale :: "int \<Rightarrow> error + fl" where
  "full_scale adc_resolution =
     (if 0 \<le> adc_resolution
      then (if 1024 \<le> adc_resolution then Inl OverflowError
            else Inr (rnd (Fin (2 ^ nat adc_resolution - 1))))
      else Inr (f64_sub (rnd (Fin (2 powi adc_resolution))) (Fin 1)))"

text \<open>
  The two conversions work on float64 arrays (the argument lists are the arrays after
  \<open>np.array\<close>); the reference voltage and the pull-up resistance are scalars.
\<close>

definition adc_to_resistance :: "fl list \<Rightarrow> int \<Rightarrow> fl \<Rightarrow> fl \<Rightarrow> error + fl list" where
  "adc_to_resistance adc_values adc_resolution reference_voltage pull_up_resistance =
     (case full_scale adc_resolution of
        Inl e \<Rightarrow> Inl e
      | Inr m \<Rightarrow>
          (let voltages = map (\<lambda>a. f64_div (f64_mul a reference_voltage) m) adc_values
           in Inr (map (\<lambda>v. f64_div (f64_mul v pull_up_resistance)
                                (f64_sub reference_voltage v)) voltages)))"

definition resistance_to_adc :: "fl list \<Rightarrow> int \<Rightarrow> fl \<Rightarrow> fl \<Rightarrow> error + fl list" where
  "resistance_to_adc resistances adc_resolution reference_voltage pull_up_resistance =
     (let voltages =
            map (\<lambda>r. f64_div (f64_mul r reference_voltage) (f64_add pull_up_resistance r))
              resistances
      in case full_scale adc_resolution of
           Inl e \<Rightarrow> Inl e
         | Inr m \<Rightarrow>
             Inr (map fl_round (map (\<lambda>v. f64_mul (f64_div v reference_voltage) m) voltages)))"

text \<open>A list comprehension whose element expression may raise: the first error wins.\<close>

fun collect :: "('a \<Rightarrow> error + 'b) \<Rightarrow> 'a list \<Rightarrow> error + 'b list" where
  "collect g [] = Inr []"
| "collect g (x # xs) =
     (case g x of
        Inl e \<Rightarrow> Inl e
      | Inr y \<Rightarrow> (case collect g xs of Inl e \<Rightarrow> Inl e | Inr ys \<Rightarrow> Inr (y # ys)))"

text \<open>
  Both table builders call the inverse model with the literal arguments
  \<open>1.0, True, 1e-6\<close> for the initial guess, the unit flag and the floor.
\<close>

definition sample_resistances ::
    "fl list \<Rightarrow> fl list \<Rightarrow> int list \<Rightarrow> int \<Rightarrow> fl \<Rightarrow> error + fl list" where
  "sample_resistances sample_temps coefficients terms max_iterations tolerance =
     (case collect (\<lambda>t. inverse_steinhart_hart t coefficients terms (PyFloat (Fin 1)) True
                           (PyFloat (Fin (1 / 1000000))) max_iterations tolerance)
             sample_temps of
        Inl e \<Rightarrow> Inl e
      | Inr rs \<Rightarrow> Inr (map val rs))"

definition resolution_msg :: string where
  "resolution_msg = ''ADC resolution must be at least 1''"

definition voltage_msg :: string where
  "voltage_msg = ''Reference voltage must be positive''"

definition pull_up_msg :: string where
  "pull_up_msg = ''Pull-up resistance must be positive''"

definition samples_msg :: string where
  "samples_msg = ''Number of sample temperatures must be at least 1''"

definition steinhart_hart_to_adc_lut ::
    "fl list \<Rightarrow> int \<Rightarrow> fl \<Rightarrow> fl \<Rightarrow> fl list \<Rightarrow> int list \<Rightarrow> bool \<Rightarrow> int \<Rightarrow> fl
       \<Rightarrow> error + (fl \<times> fl) list" where
  "steinhart_hart_to_adc_lut sample_temps adc_resolution reference_voltage pull_up_resistance
       coefficients terms temp_in_celsius max_iterations tolerance =
     (if \<not> 1 \<le> length coefficients then Inl (AssertionError coeff_msg)
      else if \<not> 1 \<le> adc_resolution then Inl (AssertionError resolution_msg)
      else if \<not> fl_less (Fin 0) reference_voltage then Inl (AssertionError voltage_msg)
      else if \<not> fl_less (Fin 0) pull_up_resistance then Inl (AssertionError pull_up_msg)
      else if \<not> 0 < length sample_temps then Inl (AssertionError samples_msg)
      else case sample_resistances sample_temps coefficients terms max_iterations tolerance of
        Inl e \<Rightarrow> Inl e
      | Inr rs \<Rightarrow>
          (case resistance_to_adc rs adc_resolution reference_voltage pull_up_resistance of
             Inl e \<Rightarrow> Inl e
           | Inr sample_adc_values \<Rightarrow> Inr (zip sample_temps sample_adc_values)))"

definition steinhart_hart_to_resistance_lut ::
    "fl list \<Rightarrow> fl list \<Rightarrow> int list \<Rightarrow> bool \<Rightarrow> int \<Rightarrow> fl \<Rightarrow> error + (fl \<times> fl) list" where
  "steinhart_hart_to_resistance_lut sample_temps coefficients terms temp_in_celsius
       max_iterations tolerance =
     (if \<not> 1 \<le> length coefficients then Inl (AssertionError coeff_msg)
      else if \<not> 0 < length sample_temps then Inl (AssertionError samples_msg)
      else case sample_resistances sample_temps coefficients terms max_iterations tolerance of
        Inl e \<Rightarrow> Inl e
      | Inr rs \<Rightarrow> Inr (zip sample_temps rs))"

definition measured_msg :: string where
  "measured_msg = ''Number of measured temperatures must be at least 1''"

definition adc_count_msg :: string where
  "adc_count_msg = ''Number of measured temperatures and ADC values must be equal''"

definition powers_msg :: string where
  "powers_msg = ''Number of steinhart-hart powers must be at least 1''"

definition fit_adc_lut ::
    "lstsq_solver \<Rightarrow> fl list \<Rightarrow> fl list \<Rightarrow> fl list \<Rightarrow> int \<Rightarrow> int \<Rightarrow> fl \<Rightarrow> fl \<Rightarrow> int list
       \<Rightarrow> bool \<Rightarrow> int \<Rightarrow> fl \<Rightarrow> error + ((fl \<times> fl) list \<times> fl list)" where
  "fit_adc_lut lstsq measured_temps sample_temps adc_values source_adc_resolution
       target_adc_resolution reference_voltage pull_up_resistance steinhart_hart_powers
       temp_in_celsius extrapolation_max_iterations extrapolation_tolerance =
     (if \<not> 0 < length measured_temps then Inl (AssertionError measured_msg)
      else if length measured_temps \<noteq> length adc_values then Inl (AssertionError adc_count_msg)
      else if \<not> 0 < length steinhart_hart_powers then Inl (AssertionError powers_msg)
      else case adc_to_resistance adc_values source_adc_resolution reference_voltage
                  pull_up_resistance of
        Inl e \<Rightarrow> Inl e
      | Inr resistances \<Rightarrow>
          (case fit_steinhart_hart lstsq measured_temps resistances steinhart_hart_powers
                  temp_in_celsius of
             Inl e \<Rightarrow> Inl e
           | Inr sh_coeffs \<Rightarrow>
               (case steinhart_hart_to_adc_lut sample_temps target_adc_resolution
                       reference_voltage pull_up_resistance sh_coeffs steinhart_hart_powers
                       temp_in_celsius extrapolation_max_iterations extrapolation_tolerance of
                  Inl e \<Rightarrow> Inl e
                | Inr lut \<Rightarrow> Inr (lut, sh_coeffs))))"

definition fit_resistance_lut ::
    "lstsq_solver \<Rightarrow> fl list \<Rightarrow> fl list \<Rightarrow> fl list \<Rightarrow> int list \<Rightarrow> bool \<Rightarrow> int \<Rightarrow> fl
       \<Rightarrow> error + ((fl \<times> fl) list \<times> fl list)" where
  "fit_resistance_lut lstsq measured_temps sample_temps resistance_values
       steinhart_hart_powers temp_in_celsius extrapolation_max_iterations
       extrapolation_tolerance =
     (if \<not> 0 < length measured_temps then Inl (AssertionError measured_msg)
      else if length measured_temps \<noteq> length resistance_values
        then Inl (AssertionError adc_count_msg)
      else if \<not> 0 < length steinhart_hart_powers then Inl (AssertionError powers_msg)
      else case fit_steinhart_hart lstsq measured_temps resistance_values
                  steinhart_hart_powers temp_in_celsius of
        Inl e \<Rightarrow> Inl e
      | Inr sh_coeffs \<Rightarrow>
          (case steinhart_hart_to_resistance_lut sample_temps sh_coeffs steinhart_hart_powers
                  temp_in_celsius extrapolation_max_iterations extrapolation_tolerance of
             Inl e \<Rightarrow> Inl e
           | Inr lut \<Rightarrow> Inr (lut, sh_coeffs)))"

section \<open>The Newton iteration\<close>

lemmas eval_defs = inverse_steinhart_hart_def newton_step_def residual_def steinhart_hart_def
      steinhart_hart_derivative_def sh_p_def sh_dp_dr_def sh_p_term_def sh_dp_dr_term_def
      py_div_def py_add_def py_mul_def py_sub_def py_neg_def py_square_def np_log_def np_pow_def
      py_max_def mk_scalar_def fl_mul_def fl_div_def fl_sub_def fl_pow_def fin_signed_def
      zero_of_def inf_of_def real_powi_def



lemma residual_np:
  "residual T cs ts cel r = Inr f \<Longrightarrow> f = NpFloat (val f)"
  unfolding residual_def py_sub_def mk_scalar_def by (auto split: sum.splits)

lemma py_div_np: "py_div (NpFloat a) b = Inr (NpFloat (fl_div a (val b)))"
  by (simp add: py_div_def)

lemma newton_step_cases:
  assumes "newton_step T cs ts cel mr r = Inr (f, r')"
  shows "residual T cs ts cel r = Inr f \<and>
         (\<exists>df. steinhart_hart_derivative r cs ts cel = Inr df \<and>
               r' = py_max (py_sub r (NpFloat (fl_div (val f) (val df)))) mr)"
proof -
  from assms obtain df q where f: "residual T cs ts cel r = Inr f"
    and d: "steinhart_hart_derivative r cs ts cel = Inr df"
    and q: "py_div f df = Inr q" and r': "r' = py_max (py_sub r q) mr"
    unfolding newton_step_def by (auto split: sum.splits)
  from residual_np [OF f] q have "q = NpFloat (fl_div (val f) (val df))"
    by (metis py_div_np sum.inject(2))
  with f d r' show ?thesis by blast
qed

lemma newton_iterates_update:
  assumes "k < length (newton_iterates n T cs ts cel mr tol r0)"
  shows "\<exists>f df.
           residual T cs ts cel ((r0 # newton_iterates n T cs ts cel mr tol r0) ! k) = Inr f \<and>
           steinhart_hart_derivative ((r0 # newton_iterates n T cs ts cel mr tol r0) ! k)
              cs ts cel = Inr df \<and>
           newton_iterates n T cs ts cel mr tol r0 ! k =
             py_max (py_sub ((r0 # newton_iterates n T cs ts cel mr tol r0) ! k)
                            (NpFloat (fl_div (val f) (val df)))) mr"
  using assms
proof (induction n arbitrary: r0 k)
  case 0
  then show ?case by simp
next
  case (Suc n)
  then obtain f r' where st: "newton_step T cs ts cel mr r0 = Inr (f, r')"
    by (auto split: sum.splits)
  let ?rest = "if fl_less (fl_abs (val f)) tol then []
               else newton_iterates n T cs ts cel mr tol r'"
  have its: "newton_iterates (Suc n) T cs ts cel mr tol r0 = r' # ?rest"
    using st by simp
  show ?case
  proof (cases k)
    case 0
    with its newton_step_cases [OF st] show ?thesis by auto
  next
    case (Suc j)
    with Suc.prems its have j: "j < length (newton_iterates n T cs ts cel mr tol r')"
      and ne: "\<not> fl_less (fl_abs (val f)) tol"
      by (auto split: if_splits)
    from Suc.IH [OF j] its ne Suc show ?thesis by simp
  qed
qed














lemmas eval2 = eval_defs inverse_iterates_def

lemma newton_loop_tolerance_exit:
  assumes "k < length (newton_iterates n T cs ts cel mr tol r)"
    and "residual T cs ts cel ((r # newton_iterates n T cs ts cel mr tol r) ! k) = Inr f"
    and "fl_less (fl_abs (val f)) tol"
  shows "Suc k = length (newton_iterates n T cs ts cel mr tol r) \<and>
         newton_loop n T cs ts cel mr tol r = Inr (newton_iterates n T cs ts cel mr tol r ! k)"
  using assms
proof (induction n arbitrary: r k)
  case 0
  then show ?case by simp
next
  case (Suc n)
  then obtain g r' where st: "newton_step T cs ts cel mr r = Inr (g, r')"
    by (auto split: sum.splits)
  note res = newton_step_cases [OF st]
  show ?case
  proof (cases k)
    case 0
    with Suc.prems res have "g = f" by simp
    with st Suc.prems(3) 0 show ?thesis by simp
  next
    case (Suc j)
    with Suc.prems(1) st have ne: "\<not> fl_less (fl_abs (val g)) tol"
      and j: "j < length (newton_iterates n T cs ts cel mr tol r')"
      by (auto split: if_splits)
    from Suc.prems(2) st ne Suc
    have "residual T cs ts cel ((r' # newton_iterates n T cs ts cel mr tol r') ! j) = Inr f"
      by simp
    from Suc.IH [OF j this Suc.prems(3)]
    have a: "length (newton_iterates n T cs ts cel mr tol r') = Suc j"
      and b: "newton_loop n T cs ts cel mr tol r' =
                Inr (newton_iterates n T cs ts cel mr tol r' ! j)"
      by simp_all
    from st ne a b Suc show ?thesis by simp
  qed
qed

lemma iterates_imp_lengths:
  assumes "k < length (newton_iterates n T cs ts cel mr tol r)"
  shows "length cs = length ts"
proof (rule ccontr)
  assume "length cs \<noteq> length ts"
  then have "newton_step T cs ts cel mr r = Inl (AssertionError length_msg)"
    by (simp add: newton_step_def residual_def steinhart_hart_def)
  then have "newton_iterates n T cs ts cel mr tol r = []"
    by (cases n) simp_all
  with assms show False by simp
qed

text \<open>
  Claim C10.  The tolerance is compared with the residual of the iterate the pass started
  from, after \<open>r\<close> has been updated.  When the residual of the iterate number \<open>k\<close>
  meets the tolerance, the update made from it is the last one, and the function returns
  that updated value, \<open>max(r - f/f', min_resistance)\<close>; the residual of the returned
  value plays no part.
\<close>
theorem tolerance_checked_before_update:
  assumes "k < length (inverse_iterates T cs ts r0 cel mr max_it tol)"
    and "residual T cs ts cel ((r0 # inverse_iterates T cs ts r0 cel mr max_it tol) ! k) = Inr f"
    and "fl_less (fl_abs (val f)) tol"
  shows "Suc k = length (inverse_iterates T cs ts r0 cel mr max_it tol) \<and>
         inverse_steinhart_hart T cs ts r0 cel mr max_it tol =
           Inr (inverse_iterates T cs ts r0 cel mr max_it tol ! k) \<and>
         (\<exists>df. steinhart_hart_derivative
                  ((r0 # inverse_iterates T cs ts r0 cel mr max_it tol) ! k) cs ts cel = Inr df \<and>
               inverse_iterates T cs ts r0 cel mr max_it tol ! k =
                 py_max (py_sub ((r0 # inverse_iterates T cs ts r0 cel mr max_it tol) ! k)
                                (NpFloat (fl_div (val f) (val df)))) mr)"
proof -
  from assms(1) have len: "length cs = length ts"
    unfolding inverse_iterates_def by (rule iterates_imp_lengths)
  from newton_loop_tolerance_exit [OF assms [unfolded inverse_iterates_def]] len
  have a: "Suc k = length (inverse_iterates T cs ts r0 cel mr max_it tol)"
    and b: "inverse_steinhart_hart T cs ts r0 cel mr max_it tol =
           Inr (inverse_iterates T cs ts r0 cel mr max_it tol ! k)"
    by (simp_all add: inverse_iterates_def inverse_steinhart_hart_def)
  from newton_iterates_update [OF assms(1) [unfolded inverse_iterates_def]] assms(2)
  have c: "\<exists>df. steinhart_hart_derivative
                  ((r0 # inverse_iterates T cs ts r0 cel mr max_it tol) ! k) cs ts cel = Inr df \<and>
               inverse_iterates T cs ts r0 cel mr max_it tol ! k =
                 py_max (py_sub ((r0 # inverse_iterates T cs ts r0 cel mr max_it tol) ! k)
                                (NpFloat (fl_div (val f) (val df)))) mr"
    by (auto simp: inverse_iterates_def)
  from a b c show ?thesis by blast
qed

lemma trace_a:
  "inverse_iterates (Fin 0) [Fin 1, Fin 1] [0, 1] (PyFloat (Fin 1)) False
      (PyFloat (Fin (1 / 1000000))) 5 (Fin 2) = [NpFloat (Fin 2)]"
  by (simp add: eval2 eval_nat_numeral)

lemma res_a:
  "residual (Fin 0) [Fin 1, Fin 1] [0, 1] False (PyFloat (Fin 1)) = Inr (NpFloat (Fin 1))"
  by (simp add: eval2)

theorem tolerance_checked_before_update_witness:
  "inverse_steinhart_hart (Fin 0) [Fin 1, Fin 1] [0, 1] (PyFloat (Fin 1)) False
      (PyFloat (Fin (1 / 1000000))) 5 (Fin 2) = Inr (NpFloat (Fin 2))"
proof -
  let ?its = "inverse_iterates (Fin 0) [Fin 1, Fin 1] [0, 1] (PyFloat (Fin 1)) False
      (PyFloat (Fin (1 / 1000000))) 5 (Fin 2)"
  have h1: "0 < length ?its" by (simp add: trace_a)
  have h2: "residual (Fin 0) [Fin 1, Fin 1] [0, 1] False ((PyFloat (Fin 1) # ?its) ! 0)
              = Inr (NpFloat (Fin 1))"
    by (simp add: res_a)
  have h3: "fl_less (fl_abs (val (NpFloat (Fin 1)))) (Fin 2)" by simp
  from tolerance_checked_before_update [OF h1 h2 h3] show ?thesis
    by (simp add: trace_a)
qed







text \<open>
  Claim C4 as stated fails.  For the constant model \<open>1/T = 1\<close> in Kelvin and the target
  temperature 1, the derivative at the initial guess is (minus) zero and the residual is
  zero: the quotient is taken all the same, and the function returns NaN.
\<close>

theorem zero_derivative_counterexample:
  "steinhart_hart_derivative (PyFloat (Fin 1)) [Fin 1] [0] False = Inr (NpFloat NZero) \<and>
   residual (Fin 1) [Fin 1] [0] False (PyFloat (Fin 1)) = Inr (NpFloat (Fin 0)) \<and>
   inverse_steinhart_hart (Fin 1) [Fin 1] [0] (PyFloat (Fin 1)) False
      (PyFloat (Fin (1 / 1000000))) 500 (Fin (1 / 1000000)) = Inr (NpFloat NaN)"
  by (simp add: eval2 eval_nat_numeral)

lemma fl_div_zero: "is_zero b \<Longrightarrow> fl_div a b = NaN \<or> fl_div a b = PInf \<or> fl_div a b = NInf"
  by (cases b; cases a) (auto simp: fl_div_def inf_of_def Let_def)

text \<open>
  Claim C4, amended.  When the derivative at an iterate is zero, the pass neither fails nor
  takes another step: it divides the residual by the zero, which gives an infinity or NaN,
  and goes on with \<open>max(r - f/f', min_resistance)\<close> for that quotient.
\<close>

theorem zero_derivative_unguarded:
  assumes "residual T cs ts cel r = Inr f"
    and "steinhart_hart_derivative r cs ts cel = Inr df"
    and "is_zero (val df)"
  shows "newton_step T cs ts cel mr r =
           Inr (f, py_max (py_sub r (NpFloat (fl_div (val f) (val df)))) mr) \<and>
         (fl_div (val f) (val df) = NaN \<or> fl_div (val f) (val df) = PInf \<or>
          fl_div (val f) (val df) = NInf)"
proof -
  from residual_np [OF assms(1)]
  have "py_div f df = Inr (NpFloat (fl_div (val f) (val df)))"
    by (metis py_div_np)
  with assms(1,2) have "newton_step T cs ts cel mr r =
           Inr (f, py_max (py_sub r (NpFloat (fl_div (val f) (val df)))) mr)"
    by (simp add: newton_step_def)
  with fl_div_zero [OF assms(3)] show ?thesis by blast
qed

theorem zero_derivative_unguarded_witness:
  "newton_step (Fin 1) [Fin 1] [0] False (PyFloat (Fin (1 / 1000000))) (PyFloat (Fin 1)) =
     Inr (NpFloat (Fin 0), NpFloat NaN)"
proof -
  have h1: "residual (Fin 1) [Fin 1] [0] False (PyFloat (Fin 1)) = Inr (NpFloat (Fin 0))"
    by (simp add: eval2)
  have h2: "steinhart_hart_derivative (PyFloat (Fin 1)) [Fin 1] [0] False = Inr (NpFloat NZero)"
    by (simp add: eval2)
  have h3: "is_zero (val (NpFloat NZero))" by simp
  from zero_derivative_unguarded [OF h1 h2 h3, of "PyFloat (Fin (1 / 1000000))"]
  show ?thesis by (simp add: py_max_def py_sub_def mk_scalar_def fl_div_def fl_sub_def)
qed

section \<open>Rounding to doubles\<close>

lemma floor_log2_eq:
  assumes "0 < a" and "2 powi e \<le> a" and "a < 2 powi (e + 1)"
  shows "\<lfloor>log 2 a\<rfloor> = e"
proof -
  have "(2::real) powr real_of_int e = 2 powi e"
    by (simp add: powr_real_of_int')
  moreover have "(2::real) powr (real_of_int e + 1) = 2 powi (e + 1)"
    using powr_real_of_int' [of "2::real" "e + 1"] by simp
  ultimately show ?thesis
    using assms floor_log_eq_powr_iff [of a 2 e] by simp
qed

lemma floor_log2_bounds:
  assumes "0 < a"
  shows "2 powi \<lfloor>log 2 a\<rfloor> \<le> a" and "a < 2 powi (\<lfloor>log 2 a\<rfloor> + 1)"
proof -
  have "(2::real) powr real_of_int \<lfloor>log 2 a\<rfloor> = 2 powi \<lfloor>log 2 a\<rfloor>"
    by (simp add: powr_real_of_int')
  moreover have "(2::real) powr (real_of_int \<lfloor>log 2 a\<rfloor> + 1) = 2 powi (\<lfloor>log 2 a\<rfloor> + 1)"
    using powr_real_of_int' [of "2::real" "\<lfloor>log 2 a\<rfloor> + 1"] by simp
  ultimately
  show "2 powi \<lfloor>log 2 a\<rfloor> \<le> a" and "a < 2 powi (\<lfloor>log 2 a\<rfloor> + 1)"
    using assms floor_log_eq_powr_iff [of a 2 "\<lfloor>log 2 a\<rfloor>"] by simp_all
qed

lemma round_double_eval:
  assumes "x \<noteq> 0" and "2 powi e \<le> \<bar>x\<bar>" and "\<bar>x\<bar> < 2 powi (e + 1)"
  shows "round_double x =
           of_int (round_half_even (x / 2 powi (max (e - 52) (- 1074)))) *
             2 powi (max (e - 52) (- 1074))"
proof -
  from assms(1) have "0 < \<bar>x\<bar>" by simp
  from floor_log2_eq [OF this assms(2,3)] assms(1) show ?thesis
    by (simp add: round_double_def Let_def)
qed

lemma round_half_even_error: "\<bar>of_int (round_half_even y) - y\<bar> \<le> 1 / 2"
proof -
  have "of_int \<lfloor>y\<rfloor> \<le> y" "y < of_int \<lfloor>y\<rfloor> + 1" by linarith+
  then show ?thesis
    by (auto simp: round_half_even_def Let_def)
qed

lemma round_double_error:
  assumes "2 powi (- 1022) \<le> x"
  shows "\<bar>round_double x - x\<bar> \<le> x / 2 ^ 53"
proof -
  have "(0::real) < 2 powi (- 1022)" by simp
  with assms have pos: "0 < x" by linarith
  define e where "e = \<lfloor>log 2 x\<rfloor>"
  from floor_log2_bounds [OF pos] have lo: "2 powi e \<le> x" and hi: "x < 2 powi (e + 1)"
    by (simp_all add: e_def)
  from assms hi have "(2::real) powi (- 1022) < 2 powi (e + 1)" by linarith
  have "- 1022 < e + 1"
  proof (rule ccontr)
    assume "\<not> - 1022 < e + 1"
    then have "e + 1 \<le> - 1022" by simp
    from power_int_increasing [OF this, of "2::real"]
    have "(2::real) powi (e + 1) \<le> 2 powi (- 1022)" by simp
    with \<open>(2::real) powi (- 1022) < 2 powi (e + 1)\<close> show False by linarith
  qed
  then have k: "max (e - 52) (- 1074) = e - 52" by simp
  define s :: real where "s = 2 powi (e - 52)"
  have spos: "0 < s" by (simp add: s_def)
  have s52: "s * 2 ^ 52 = 2 powi e"
    unfolding s_def using power_int_add [of "2::real" "e - 52" 52] by simp
  have rd: "round_double x = of_int (round_half_even (x / s)) * s"
    using pos k by (simp add: round_double_def Let_def e_def s_def)
  have "\<bar>of_int (round_half_even (x / s)) - x / s\<bar> * s \<le> 1 / 2 * s"
    using round_half_even_error [of "x / s"] spos by (intro mult_right_mono) simp_all
  moreover have "\<bar>of_int (round_half_even (x / s)) - x / s\<bar> * s = \<bar>round_double x - x\<bar>"
  proof -
    have "\<bar>of_int (round_half_even (x / s)) - x / s\<bar> * s =
          \<bar>(of_int (round_half_even (x / s)) - x / s) * s\<bar>"
      using spos by (simp add: abs_mult)
    also have "(of_int (round_half_even (x / s)) - x / s) * s = round_double x - x"
      using spos by (simp add: rd algebra_simps)
    finally show ?thesis .
  qed
  ultimately have "\<bar>round_double x - x\<bar> \<le> s / 2" by simp
  moreover have "s / 2 \<le> x / 2 ^ 53"
  proof -
    from lo s52 have "s * 2 ^ 52 \<le> x" by simp
    then show ?thesis by (simp add: field_simps)
  qed
  ultimately show ?thesis by linarith
qed

lemma unit_loss_bounds: "0 < unit_loss" "unit_loss < 1" "unit_loss \<le> 1"
  by (simp_all add: unit_loss_def)

lemma unit_loss_power_pos: "0 < unit_loss ^ k"
  by (simp add: unit_loss_bounds)

lemma unit_loss_power_le1: "unit_loss ^ k \<le> 1"
  by (simp add: power_le_one unit_loss_bounds less_imp_le)

lemma unit_loss_power_ge: "1 - real k / 2 ^ 53 \<le> unit_loss ^ k"
proof -
  have "1 + real k * (- (1 / 2 ^ 53)) \<le> (1 + (- (1 / 2 ^ 53))) ^ k"
    by (rule Bernoulli_inequality) simp
  then show ?thesis by (simp add: unit_loss_def)
qed

lemma round_double_near:
  assumes "2 powi (- 1022) \<le> x"
  shows "0 < round_double x" and "near 1 (round_double x) x"
proof -
  have "(0::real) < 2 powi (- 1022)" by simp
  with assms have pos: "0 < x" by linarith
  from round_double_error [OF assms]
  have lo: "x - x / 2 ^ 53 \<le> round_double x" and hi: "round_double x \<le> x + x / 2 ^ 53"
    by linarith+
  have l: "x * unit_loss \<le> round_double x"
    using lo by (simp add: unit_loss_def algebra_simps)
  with pos unit_loss_bounds(1) show "0 < round_double x"
    by (meson less_le_trans mult_pos_pos)
  have "round_double x * unit_loss \<le> (x + x / 2 ^ 53) * unit_loss"
    using hi unit_loss_bounds(1) by (intro mult_right_mono) simp_all
  also have "(x + x / 2 ^ 53) * unit_loss = x * (1 - 1 / (2 ^ 53 * 2 ^ 53))"
    by (simp add: unit_loss_def algebra_simps)
  also have "\<dots> \<le> x" using pos by (simp add: algebra_simps)
  finally show "near 1 (round_double x) x"
    using l by (simp add: near_def)
qed

lemma rnd_pos:
  assumes "2 powi (- 1022) \<le> x" and "x \<le> 2 powi 1023"
  shows "\<exists>z. rnd (Fin x) = Fin z \<and> 0 < z \<and> near 1 z x"
proof -
  have "(0::real) < 2 powi (- 1022)" by simp
  with assms have pos: "0 < x" by linarith
  note z = round_double_near [OF assms(1)]
  from round_double_error [OF assms(1)] have "round_double x \<le> x + x / 2 ^ 53" by linarith
  also have "\<dots> < 2 * x" using pos by (simp add: field_simps)
  also have "\<dots> \<le> 2 * 2 powi 1023" using assms(2) by simp
  finally have "round_double x < 2 * 2 ^ 1023" by simp
  then have "round_double x < 2 ^ 1024" by simp
  with z(1) have "rnd (Fin x) = Fin (round_double x)"
    using pos by (simp add: fin_signed_def Let_def)
  with z show ?thesis by blast
qed

lemma near_refl: "0 \<le> a \<Longrightarrow> near k a a"
  using unit_loss_power_le1 [of k] by (simp add: near_def mult_left_le)

lemma near_trans:
  assumes "near j a b" and "near k b c"
  shows "near (j + k) a c"
proof -
  from assms have 1: "b * unit_loss ^ j \<le> a" and 2: "a * unit_loss ^ j \<le> b"
    and 3: "c * unit_loss ^ k \<le> b" and 4: "b * unit_loss ^ k \<le> c"
    by (simp_all add: near_def)
  have "c * unit_loss ^ k * unit_loss ^ j \<le> b * unit_loss ^ j"
    using 3 unit_loss_power_pos [of j] by (intro mult_right_mono) simp_all
  with 1 have l: "c * unit_loss ^ (j + k) \<le> a" by (simp add: power_add mult_ac)
  have "a * unit_loss ^ j * unit_loss ^ k \<le> b * unit_loss ^ k"
    using 2 unit_loss_power_pos [of k] by (intro mult_right_mono) simp_all
  with 4 have "a * unit_loss ^ (j + k) \<le> c" by (simp add: power_add mult_ac)
  with l show ?thesis by (simp add: near_def)
qed

lemma near_mult_half:
  assumes "b * unit_loss ^ j \<le> a" and "d * unit_loss ^ k \<le> c" and "0 < b" and "0 < d"
  shows "b * d * unit_loss ^ (j + k) \<le> a * c"
proof -
  have "0 \<le> b * unit_loss ^ j" "0 \<le> d * unit_loss ^ k"
    using assms(3,4) unit_loss_power_pos [of j] unit_loss_power_pos [of k] by simp_all
  with assms(1,2) have "(b * unit_loss ^ j) * (d * unit_loss ^ k) \<le> a * c"
    by (intro mult_mono) linarith+
  then show ?thesis by (simp add: power_add mult_ac)
qed

lemma near_mult:
  assumes "near j a b" and "near k c d" and "0 < a" and "0 < b" and "0 < c" and "0 < d"
  shows "near (j + k) (a * c) (b * d)"
  using assms near_mult_half [of b j a d k c] near_mult_half [of a j b c k d]
  by (simp add: near_def)

lemma near_div:
  assumes "near j a b" and "near k c d" and "0 < a" and "0 < b" and "0 < c" and "0 < d"
  shows "near (j + k) (a / c) (b / d)"
proof -
  from assms have 1: "b * unit_loss ^ j \<le> a" and 2: "a * unit_loss ^ j \<le> b"
    and 3: "d * unit_loss ^ k \<le> c" and 4: "c * unit_loss ^ k \<le> d"
    by (simp_all add: near_def)
  from near_mult_half [OF 1 4 assms(4,5)] have "b * c * unit_loss ^ (j + k) \<le> a * d" .
  then have l: "b / d * unit_loss ^ (j + k) \<le> a / c"
    using assms(5,6) by (simp add: field_simps)
  from near_mult_half [OF 2 3 assms(3,6)] have "a * d * unit_loss ^ (j + k) \<le> b * c" .
  then have "a / c * unit_loss ^ (j + k) \<le> b / d"
    using assms(5,6) by (simp add: field_simps)
  with l show ?thesis by (simp add: near_def)
qed

lemma near_half:
  assumes "near k a b" and "k \<le> 1000" and "0 < a" and "0 < b"
  shows "b / 2 \<le> a" and "a \<le> 2 * b"
proof -
  have "real k / 2 ^ 53 \<le> 1000 / 2 ^ 53" using assms(2) by (simp add: divide_right_mono)
  also have "\<dots> \<le> (1::real) / 2" by simp
  finally have "1 / 2 \<le> 1 - real k / 2 ^ 53" by simp
  with unit_loss_power_ge [of k] have h: "1 / 2 \<le> unit_loss ^ k" by linarith
  from assms(1) have 1: "b * unit_loss ^ k \<le> a" and 2: "a * unit_loss ^ k \<le> b"
    by (simp_all add: near_def)
  have "b * (1 / 2) \<le> b * unit_loss ^ k" using h assms(4) by (intro mult_left_mono) simp_all
  with 1 show "b / 2 \<le> a" by simp
  have "a * (1 / 2) \<le> a * unit_loss ^ k" using h assms(3) by (intro mult_left_mono) simp_all
  with 2 show "a \<le> 2 * b" by simp
qed

lemma f64_mul_pos:
  assumes "0 < x" and "0 < y" and "2 powi (- 1022) \<le> x * y" and "x * y \<le> 2 powi 1023"
  shows "\<exists>z. f64_mul (Fin x) (Fin y) = Fin z \<and> 0 < z \<and> near 1 z (x * y)"
proof -
  from assms(1,2) have "fl_mul (Fin x) (Fin y) = Fin (x * y)"
    by (simp add: fl_mul_def fin_signed_def)
  with rnd_pos [OF assms(3,4)] show ?thesis by (simp add: f64_mul_def)
qed

lemma f64_div_pos:
  assumes "0 < x" and "0 < y" and "2 powi (- 1022) \<le> x / y" and "x / y \<le> 2 powi 1023"
  shows "\<exists>z. f64_div (Fin x) (Fin y) = Fin z \<and> 0 < z \<and> near 1 z (x / y)"
proof -
  from assms(1,2) have "fl_div (Fin x) (Fin y) = Fin (x / y)"
    by (simp add: fl_div_def fin_signed_def)
  with rnd_pos [OF assms(3,4)] show ?thesis by (simp add: f64_div_def)
qed

lemma f64_add_pos:
  assumes "2 powi (- 1022) \<le> x + y" and "x + y \<le> 2 powi 1023"
  shows "\<exists>z. f64_add (Fin x) (Fin y) = Fin z \<and> 0 < z \<and> near 1 z (x + y)"
  using rnd_pos [OF assms] by (simp add: f64_add_def)

lemma f64_sub_pos:
  assumes "y \<noteq> 0" and "2 powi (- 1022) \<le> x - y" and "x - y \<le> 2 powi 1023"
  shows "\<exists>z. f64_sub (Fin x) (Fin y) = Fin z \<and> 0 < z \<and> near 1 z (x - y)"
  using rnd_pos [OF assms(2,3)] assms(1) by (simp add: f64_sub_def fl_sub_def)

lemma range_half:
  fixes a b :: real
  assumes "b / 2 \<le> a" and "a \<le> 2 * b" and "2 powi (- 1021) \<le> b" and "b \<le> 2 powi 1022"
  shows "2 powi (- 1022) \<le> a" and "a \<le> 2 powi 1023"
proof -
  have "(2::real) powi (- 1022) = 2 powi (- 1021) / 2" "(2::real) powi 1023 = 2 * 2 powi 1022"
    by simp_all
  with assms show "2 powi (- 1022) \<le> a" and "a \<le> 2 powi 1023" by linarith+
qed

text \<open>The rounded product and quotient of two values known up to rounding errors.\<close>

lemma f64_mul_near:
  assumes "0 < x" and "0 < y" and "0 < X" and "0 < Y"
    and "near j x X" and "near k y Y" and "j + k \<le> 1000"
    and "2 powi (- 1021) \<le> X * Y" and "X * Y \<le> 2 powi 1022"
  shows "\<exists>z. f64_mul (Fin x) (Fin y) = Fin z \<and> 0 < z \<and> near (Suc (j + k)) z (X * Y)"
proof -
  note n = near_mult [OF assms(5,6) assms(1,3,2,4)]
  from assms(1-4) have p: "0 < x * y" "0 < X * Y" by simp_all
  note h = near_half [OF n assms(7) p]
  note r = range_half [OF h assms(8,9)]
  from f64_mul_pos [OF assms(1,2) r] obtain z
    where z: "f64_mul (Fin x) (Fin y) = Fin z" "0 < z" "near 1 z (x * y)" by blast
  from near_trans [OF z(3) n] have "near (Suc (j + k)) z (X * Y)" by simp
  with z show ?thesis by blast
qed

lemma f64_div_near:
  assumes "0 < x" and "0 < y" and "0 < X" and "0 < Y"
    and "near j x X" and "near k y Y" and "j + k \<le> 1000"
    and "2 powi (- 1021) \<le> X / Y" and "X / Y \<le> 2 powi 1022"
  shows "\<exists>z. f64_div (Fin x) (Fin y) = Fin z \<and> 0 < z \<and> near (Suc (j + k)) z (X / Y)"
proof -
  note n = near_div [OF assms(5,6) assms(1,3,2,4)]
  from assms(1-4) have p: "0 < x / y" "0 < X / Y" by simp_all
  note h = near_half [OF n assms(7) p]
  note r = range_half [OF h assms(8,9)]
  from f64_div_pos [OF assms(1,2) r] obtain z
    where z: "f64_div (Fin x) (Fin y) = Fin z" "0 < z" "near 1 z (x / y)" by blast
  from near_trans [OF z(3) n] have "near (Suc (j + k)) z (X / Y)" by simp
  with z show ?thesis by blast
qed

lemma near_saturation:
  assumes "near k a b" and "0 < a" and "0 < b" and "0 < R"
  shows "near k (a / (R + a)) (b / (R + b))"
proof -
  from assms(1) have 1: "b * unit_loss ^ k \<le> a" and 2: "a * unit_loss ^ k \<le> b"
    by (simp_all add: near_def)
  have half: "q * unit_loss ^ k * (R + p) \<le> p * (R + q)"
    if "q * unit_loss ^ k \<le> p" "0 < p" "0 < q" for p q
  proof -
    have "q * unit_loss ^ k * R \<le> p * R" using that(1) assms(4) by (simp add: mult_right_mono)
    moreover have "q * unit_loss ^ k * p \<le> q * 1 * p"
      using unit_loss_power_le1 [of k] that(2,3) by (intro mult_right_mono mult_left_mono) simp_all
    ultimately show ?thesis by (simp add: algebra_simps)
  qed
  from half [OF 1 assms(2,3)] have "b / (R + b) * unit_loss ^ k \<le> a / (R + a)"
    using assms(2-4) by (simp add: field_simps)
  moreover from half [OF 2 assms(3,2)] have "a / (R + a) * unit_loss ^ k \<le> b / (R + b)"
    using assms(2-4) by (simp add: field_simps)
  ultimately show ?thesis by (simp add: near_def)
qed

lemma round_half_even_unique:
  assumes "of_int n - 1 / 2 < y" and "y < of_int n + 1 / 2"
  shows "round_half_even y = n"
proof (cases "of_int n \<le> y")
  case True
  with assms have "\<lfloor>y\<rfloor> = n" by linarith
  with assms show ?thesis by (simp add: round_half_even_def Let_def)
next
  case False
  with assms have "\<lfloor>y\<rfloor> = n - 1" by linarith
  with assms False show ?thesis by (simp add: round_half_even_def Let_def)
qed

section \<open>The unit conversion\<close>

lemma mult_range:
  fixes x y :: real
  assumes "a \<le> x" and "x \<le> b" and "c \<le> y" and "y \<le> d" and "0 < a" and "0 < c"
  shows "a * c \<le> x * y" and "x * y \<le> b * d"
  using assms by (auto intro!: mult_mono)

lemma code_back:
  assumes v: "2 powi (- 400) \<le> v" "v \<le> 2 powi 400"
    and R: "2 powi (- 400) \<le> R" "R \<le> 2 powi 400"
    and r: "0 < r" "R \<le> r * 2 ^ 60" "r \<le> R * 2 ^ 60"
    and m: "0 < m" "near 1 m M" "1 \<le> M" "M \<le> 2 ^ 48"
  shows "\<exists>w. f64_mul (f64_div (f64_div (f64_mul (Fin r) (Fin v)) (f64_add (Fin R) (Fin r)))
                             (Fin v)) (Fin m) = Fin w \<and>
             0 < w \<and> near 6 w (r / (R + r) * M)"
proof -
  have p400: "(0::real) < 2 powi (- 400)" by simp
  from v R p400 have vpos: "0 < v" and Rpos: "0 < R" by linarith+
  from m have Mpos: "0 < M" by simp
  define g where "g = r / (R + r)"
  have gpos: "0 < g" using r(1) Rpos by (simp add: g_def)
  have g1: "g \<le> 1" using r(1) Rpos by (simp add: g_def)
  have glo: "1 / 2 ^ 61 \<le> g"
  proof -
    from r(2) have "R + r \<le> r * 2 ^ 60 + r" by simp
    also have "\<dots> \<le> r * 2 ^ 61" using r(1) by simp
    finally have "R + r \<le> r * 2 ^ 61" .
    then show ?thesis using r(1) Rpos by (simp add: g_def field_simps)
  qed
  have rlo: "2 powi (- 460) \<le> r"
  proof -
    from R(1) r(2) have "2 powi (- 400) \<le> r * 2 ^ 60" by linarith
    then have "2 powi (- 400) / 2 ^ 60 \<le> r" by (simp add: field_simps)
    moreover have "(2::real) powi (- 400) / 2 ^ 60 = 2 powi (- 460)" by simp
    ultimately show ?thesis by simp
  qed
  have rhi: "r \<le> 2 powi 460"
  proof -
    from R(2) have "R * 2 ^ 60 \<le> 2 powi 400 * 2 ^ 60" by simp
    moreover have "(2::real) powi 400 * 2 ^ 60 = 2 powi 460" by simp
    ultimately show ?thesis using r(3) by linarith
  qed
  \<comment> \<open>\<open>resistances * reference_voltage\<close>\<close>
  have "2 powi (- 460) * 2 powi (- 400) \<le> r * v" "r * v \<le> 2 powi 460 * 2 powi 400"
    using mult_range [OF rlo rhi v] by simp_all
  moreover have "(2::real) powi (- 1022) \<le> 2 powi (- 460) * 2 powi (- 400)"
    "(2::real) powi 460 * 2 powi 400 \<le> 2 powi 1023" by simp_all
  ultimately have "2 powi (- 1022) \<le> r * v" "r * v \<le> 2 powi 1023" by linarith+
  from f64_mul_pos [OF r(1) vpos this] obtain t
    where t: "f64_mul (Fin r) (Fin v) = Fin t" "0 < t" "near 1 t (r * v)" by blast
  \<comment> \<open>\<open>pull_up_resistance + resistances\<close>\<close>
  have "(2::real) powi (- 1022) \<le> 2 powi (- 400)" "(2::real) powi 400 + 2 powi 460 \<le> 2 powi 1023"
    by simp_all
  with R rlo rhi r(1) have "2 powi (- 1022) \<le> R + r" "R + r \<le> 2 powi 1023" by linarith+
  from f64_add_pos [OF this] obtain S
    where S: "f64_add (Fin R) (Fin r) = Fin S" "0 < S" "near 1 S (R + r)" by blast
  \<comment> \<open>the voltage\<close>
  have X: "r * v / (R + r) = v * g" by (simp add: g_def)
  have "2 powi (- 400) * (1 / 2 ^ 61) \<le> v * g" "v * g \<le> 2 powi 400 * 1"
    using mult_range [OF v glo g1] by simp_all
  moreover have "(2::real) powi (- 1021) \<le> 2 powi (- 400) * (1 / 2 ^ 61)"
    "(2::real) powi 400 * 1 \<le> 2 powi 1022" by simp_all
  ultimately have "2 powi (- 1021) \<le> r * v / (R + r)" "r * v / (R + r) \<le> 2 powi 1022"
    unfolding X by linarith+
  from f64_div_near [OF t(2) S(2) _ _ t(3) S(3) _ this] r(1) vpos Rpos obtain V
    where V: "f64_div (Fin t) (Fin S) = Fin V" "0 < V" "near 3 V (r * v / (R + r))"
    by (auto simp: numeral_3_eq_3)
  \<comment> \<open>\<open>voltages / reference_voltage\<close>\<close>
  have Y: "r * v / (R + r) / v = g" using vpos by (simp add: g_def)
  have "(2::real) powi (- 1021) \<le> 1 / 2 ^ 61" "(1::real) \<le> 2 powi 1022" by simp_all
  with glo g1 have "2 powi (- 1021) \<le> r * v / (R + r) / v" "r * v / (R + r) / v \<le> 2 powi 1022"
    unfolding Y by linarith+
  from f64_div_near [OF V(2) vpos _ vpos V(3) near_refl [of v 0] _ this] r(1) vpos Rpos
  obtain u where u: "f64_div (Fin V) (Fin v) = Fin u" "0 < u" "near 4 u g"
    unfolding Y by (auto simp: eval_nat_numeral)
  \<comment> \<open>times the full scale\<close>
  have "1 / 2 ^ 61 * 1 \<le> g * M" "g * M \<le> 1 * 2 ^ 48"
    using mult_range [OF glo g1 m(3,4)] by simp_all
  moreover have "(2::real) powi (- 1021) \<le> 1 / 2 ^ 61 * 1" "(1::real) * 2 ^ 48 \<le> 2 powi 1022"
    by simp_all
  ultimately have "2 powi (- 1021) \<le> g * M" "g * M \<le> 2 powi 1022" by linarith+
  from f64_mul_near [OF u(2) m(1) gpos Mpos u(3) m(2) _ this]
  obtain w where w: "f64_mul (Fin u) (Fin m) = Fin w" "0 < w" "near 6 w (g * M)"
    by (auto simp: eval_nat_numeral)
  from t(1) S(1) V(1) u(1) w show ?thesis
    by (auto simp: g_def)
qed

lemma resistance_of_code:
  assumes v: "2 powi (- 400) \<le> v" "v \<le> 2 powi 400"
    and R: "2 powi (- 400) \<le> R" "R \<le> 2 powi 400"
    and c: "1 \<le> c" "c + 1 \<le> M"
    and m: "0 < m" "near 1 m M" "M \<le> 2 ^ 48"
  shows "\<exists>V \<rho>. f64_div (f64_mul (Fin c) (Fin v)) (Fin m) = Fin V \<and>
               f64_div (f64_mul (Fin V) (Fin R)) (f64_sub (Fin v) (Fin V)) = Fin \<rho> \<and>
               0 < V \<and> V < v \<and> 0 < \<rho> \<and> near 3 (V / v) (c / M) \<and>
               near 3 \<rho> (V * R / (v - V)) \<and> R \<le> \<rho> * 2 ^ 60 \<and> \<rho> \<le> R * 2 ^ 60"
proof -
  have p400: "(0::real) < 2 powi (- 400)" by simp
  from v R p400 have vpos: "0 < v" and Rpos: "0 < R" by linarith+
  from c have cpos: "0 < c" and Mpos: "0 < M" and cM: "c \<le> M" by linarith+
  from c m(3) have c48: "c \<le> 2 ^ 48" by linarith
  define h where "h = c / M"
  have hpos: "0 < h" using cpos Mpos by (simp add: h_def)
  have h1: "h \<le> 1 - 1 / 2 ^ 48"
  proof -
    from c(2) have "c \<le> M - 1" by simp
    then have "h \<le> (M - 1) / M" using Mpos by (simp add: h_def divide_right_mono)
    also have "\<dots> = 1 - 1 / M" using Mpos by (simp add: field_simps)
    also have "\<dots> \<le> 1 - 1 / 2 ^ 48" using m(3) Mpos by (simp add: frac_le)
    finally show ?thesis .
  qed
  have hlo: "1 / 2 ^ 48 \<le> h"
  proof -
    have "1 / 2 ^ 48 \<le> 1 / M" using m(3) Mpos by (simp add: frac_le)
    also have "\<dots> \<le> c / M" using c(1) Mpos by (simp add: divide_right_mono)
    finally show ?thesis by (simp add: h_def)
  qed
  \<comment> \<open>\<open>adc_values * reference_voltage\<close>\<close>
  have "1 * 2 powi (- 400) \<le> c * v" "c * v \<le> 2 ^ 48 * 2 powi 400"
    using mult_range [OF c(1) c48 v] by simp_all
  moreover have "(2::real) powi (- 1022) \<le> 1 * 2 powi (- 400)"
    "(2::real) ^ 48 * 2 powi 400 \<le> 2 powi 1023" by simp_all
  ultimately have "2 powi (- 1022) \<le> c * v" "c * v \<le> 2 powi 1023" by linarith+
  from f64_mul_pos [OF cpos vpos this] obtain t
    where t: "f64_mul (Fin c) (Fin v) = Fin t" "0 < t" "near 1 t (c * v)" by blast
  \<comment> \<open>the voltage\<close>
  have X: "c * v / M = v * h" by (simp add: h_def)
  have h1': "h \<le> 1" using h1 by simp
  have "2 powi (- 400) * (1 / 2 ^ 48) \<le> v * h" "v * h \<le> 2 powi 400 * 1"
    using mult_range [OF v hlo h1'] by simp_all
  moreover have "(2::real) powi (- 1021) \<le> 2 powi (- 400) * (1 / 2 ^ 48)"
    "(2::real) powi 400 * 1 \<le> 2 powi 1022" by simp_all
  ultimately have "2 powi (- 1021) \<le> c * v / M" "c * v / M \<le> 2 powi 1022"
    unfolding X by linarith+
  from f64_div_near [OF t(2) m(1) _ Mpos t(3) m(2) _ this] cpos vpos obtain V
    where V: "f64_div (Fin t) (Fin m) = Fin V" "0 < V" "near 3 V (v * h)"
    unfolding X by (auto simp: numeral_3_eq_3)
  have Vh: "near 3 (V / v) h"
  proof -
    have "0 < v * h" using vpos hpos by simp
    from near_div [OF V(3) near_refl [of v 0] V(2) this vpos vpos] vpos
    show ?thesis by simp
  qed
  \<comment> \<open>the voltage stays below the reference\<close>
  have Vhi: "V \<le> v * (1 - 1 / 2 ^ 50)"
  proof -
    from V(3) have "V * unit_loss ^ 3 \<le> v * h" by (simp add: near_def)
    moreover have "V * (1 - 3 / 2 ^ 53) \<le> V * unit_loss ^ 3"
      using unit_loss_power_ge [of 3] V(2) by (intro mult_left_mono) simp_all
    moreover have "v * h \<le> v * (1 - 1 / 2 ^ 48)"
      using h1 vpos by (intro mult_left_mono) simp_all
    ultimately have "V * (1 - 3 / 2 ^ 53) \<le> v * (1 - 1 / 2 ^ 48)" by linarith
    moreover have "v * (1 - 1 / 2 ^ 48) \<le> v * ((1 - 1 / 2 ^ 50) * (1 - 3 / 2 ^ 53))"
      using vpos by (intro mult_left_mono) simp_all
    ultimately have "V * (1 - 3 / 2 ^ 53) \<le> v * (1 - 1 / 2 ^ 50) * (1 - 3 / 2 ^ 53)"
      by (simp add: mult.assoc)
    then show ?thesis by (simp only: mult_le_cancel_right) simp
  qed
  then have Vv: "V < v" using vpos by (simp add: algebra_simps)
  have Dlo: "v / 2 ^ 50 \<le> v - V" using Vhi by (simp add: algebra_simps)
  have Vlo: "v * h / 2 \<le> V"
    using near_half [OF V(3) _ V(2)] vpos hpos by simp
  \<comment> \<open>\<open>reference_voltage - voltages\<close>\<close>
  have "2 powi (- 400) / 2 ^ 50 \<le> v / 2 ^ 50" using v(1) by (simp add: divide_right_mono)
  moreover have "(2::real) powi (- 1022) \<le> 2 powi (- 400) / 2 ^ 50"
    "(2::real) powi 400 \<le> 2 powi 1023" by simp_all
  ultimately have "2 powi (- 1022) \<le> v - V" "v - V \<le> 2 powi 1023"
    using Dlo v(2) V(2) by linarith+
  from f64_sub_pos [OF _ this] V(2) obtain D
    where D: "f64_sub (Fin v) (Fin V) = Fin D" "0 < D" "near 1 D (v - V)" by auto
  \<comment> \<open>\<open>voltages * pull_up_resistance\<close>\<close>
  have Vlo': "2 powi (- 449) \<le> V"
  proof -
    have "2 powi (- 400) * (1 / 2 ^ 48) \<le> v * h"
      using mult_range(1) [OF v hlo h1'] by simp
    then have "2 powi (- 449) \<le> v * h / 2" by simp
    then show ?thesis using Vlo by (rule order_trans)
  qed
  have Vhi': "V \<le> 2 powi 400" using Vv v(2) by linarith
  have "2 powi (- 449) * 2 powi (- 400) \<le> V * R" "V * R \<le> 2 powi 400 * 2 powi 400"
    using mult_range [OF Vlo' Vhi' R] by simp_all
  moreover have "(2::real) powi (- 1022) \<le> 2 powi (- 449) * 2 powi (- 400)"
    "(2::real) powi 400 * 2 powi 400 \<le> 2 powi 1023" by simp_all
  ultimately have "2 powi (- 1022) \<le> V * R" "V * R \<le> 2 powi 1023" by linarith+
  from f64_mul_pos [OF V(2) Rpos this] obtain t2
    where t2: "f64_mul (Fin V) (Fin R) = Fin t2" "0 < t2" "near 1 t2 (V * R)" by blast
  \<comment> \<open>the resistance\<close>
  define \<rho>0 where "\<rho>0 = V * R / (v - V)"
  have dpos: "0 < v - V" using Vv by simp
  have r0pos: "0 < \<rho>0" using V(2) Rpos dpos by (simp add: \<rho>0_def)
  have r0lo: "R / 2 ^ 49 \<le> \<rho>0"
  proof -
    have "v * (1 / 2 ^ 48) \<le> v * h" using hlo vpos by (intro mult_left_mono) simp_all
    with Vlo have "v / 2 ^ 49 \<le> V" by simp
    then have "v / 2 ^ 49 * R \<le> V * R" using Rpos by (intro mult_right_mono) simp_all
    then have "v / 2 ^ 49 * R / v \<le> V * R / (v - V)"
      using vpos dpos V(2) Rpos by (intro frac_le) simp_all
    then show ?thesis using vpos by (simp add: \<rho>0_def)
  qed
  have r0hi: "\<rho>0 \<le> R * 2 ^ 50"
  proof -
    have "V * R \<le> v * R" using Vv Rpos by (intro mult_right_mono) simp_all
    then have "V * R / (v - V) \<le> v * R / (v / 2 ^ 50)"
      using vpos Dlo V(2) Rpos by (intro frac_le) simp_all
    then show ?thesis using vpos by (simp add: \<rho>0_def)
  qed
  have "2 powi (- 400) / 2 ^ 49 \<le> R / 2 ^ 49" "R * 2 ^ 50 \<le> 2 powi 400 * 2 ^ 50"
    using R by (simp_all add: divide_right_mono)
  moreover have "(2::real) powi (- 1021) \<le> 2 powi (- 400) / 2 ^ 49"
    "(2::real) powi 400 * 2 ^ 50 \<le> 2 powi 1022" by simp_all
  ultimately have "2 powi (- 1021) \<le> V * R / (v - V)" "V * R / (v - V) \<le> 2 powi 1022"
    using r0lo r0hi unfolding \<rho>0_def by linarith+
  from f64_div_near [OF t2(2) D(2) _ dpos t2(3) D(3) _ this] V(2) Rpos obtain \<rho>
    where \<rho>: "f64_div (Fin t2) (Fin D) = Fin \<rho>" "0 < \<rho>" "near 3 \<rho> \<rho>0"
    unfolding \<rho>0_def by (auto simp: numeral_3_eq_3)
  note hf = near_half [OF \<rho>(3) _ \<rho>(2) r0pos]
  have "R \<le> \<rho> * 2 ^ 60"
  proof -
    from hf(1) r0lo have "R / 2 ^ 49 / 2 \<le> \<rho>" by simp
    then have "R \<le> \<rho> * 2 ^ 50" by (simp add: field_simps)
    also have "\<dots> \<le> \<rho> * 2 ^ 60" using \<rho>(2) by simp
    finally show ?thesis .
  qed
  moreover have "\<rho> \<le> R * 2 ^ 60"
  proof -
    from hf(2) r0hi have "\<rho> \<le> 2 * (R * 2 ^ 50)" by simp
    also have "\<dots> \<le> R * 2 ^ 60" using Rpos by simp
    finally show ?thesis .
  qed
  ultimately show ?thesis
    using t(1) V(1,2) Vv Vh t2(1) D(1) \<rho> unfolding \<rho>0_def h_def by auto
qed

lemma full_scale_near:
  assumes "1 \<le> bits" and "bits \<le> 48"
  shows "\<exists>m. full_scale bits = Inr (Fin m) \<and> 0 < m \<and> near 1 m (2 ^ nat bits - 1) \<and>
             (1::real) \<le> 2 ^ nat bits - 1 \<and> (2::real) ^ nat bits - 1 \<le> 2 ^ 48"
proof -
  from assms obtain n where n: "nat bits = Suc n" by (cases "nat bits") auto
  have lo: "(1::real) \<le> 2 ^ nat bits - 1"
    unfolding n using one_le_power [of "2::real" n] by simp
  from assms have "nat bits \<le> 48" by simp
  then have "(2::real) ^ nat bits \<le> 2 ^ 48" by (intro power_increasing) simp_all
  then have hi: "(2::real) ^ nat bits - 1 \<le> 2 ^ 48" by simp
  have "(2::real) powi (- 1022) \<le> 1" "(2::real) ^ 48 \<le> 2 powi 1023" by simp_all
  with lo hi have "2 powi (- 1022) \<le> (2::real) ^ nat bits - 1"
    "(2::real) ^ nat bits - 1 \<le> 2 powi 1023" by linarith+
  from rnd_pos [OF this] obtain m
    where "rnd (Fin (2 ^ nat bits - 1)) = Fin m" "0 < m" "near 1 m (2 ^ nat bits - 1)" by blast
  with assms lo hi show ?thesis by (auto simp: full_scale_def)
qed

lemma near_to_code:
  fixes c :: int
  assumes "near 12 w (of_int c)" and "1 \<le> c" and "real_of_int c \<le> 2 ^ 48"
  shows "fl_round (Fin w) = Fin (of_int c)"
proof -
  define x :: real where "x = of_int c"
  from assms(2) have x1: "1 \<le> x" by (simp add: x_def)
  from assms(1) have lo: "x * unit_loss ^ 12 \<le> w" and hi: "w * unit_loss ^ 12 \<le> x"
    by (simp_all add: near_def x_def)
  note u = unit_loss_power_ge [of 12]
  have wpos: "0 < w"
  proof -
    have "0 < x * unit_loss ^ 12" using x1 unit_loss_power_pos [of 12] by simp
    with lo show ?thesis by linarith
  qed
  have "x * (1 - 12 / 2 ^ 53) \<le> x * unit_loss ^ 12"
    using u x1 by (intro mult_left_mono) simp_all
  moreover have "x * (12 / 2 ^ 53) \<le> 2 ^ 48 * (12 / 2 ^ 53)"
    using assms(3) by (intro mult_right_mono) (simp_all add: x_def)
  ultimately have l: "x - 1 / 2 < w" using lo by (simp add: algebra_simps)
  have h: "w < x + 1 / 2"
  proof (rule ccontr)
    assume "\<not> w < x + 1 / 2"
    then have "x + 1 / 2 \<le> w" by simp
    then have "(x + 1 / 2) * (1 - 12 / 2 ^ 53) \<le> w * (1 - 12 / 2 ^ 53)"
      by (intro mult_right_mono) simp_all
    moreover have "w * (1 - 12 / 2 ^ 53) \<le> w * unit_loss ^ 12"
      using u wpos by (intro mult_left_mono) simp_all
    moreover have "(x + 1 / 2) * (12 / 2 ^ 53) \<le> (2 ^ 48 + 1 / 2) * (12 / 2 ^ 53)"
      using assms(3) by (intro mult_right_mono) (simp_all add: x_def)
    ultimately show False using hi by (simp add: algebra_simps)
  qed
  from round_half_even_unique [of c w] l h have "round_half_even w = c" by (simp add: x_def)
  with assms(2) show ?thesis by (simp add: fin_signed_def)
qed

lemma roundtrip_one:
  fixes c :: int
  assumes v: "2 powi (- 400) \<le> v" "v \<le> 2 powi 400"
    and R: "2 powi (- 400) \<le> R" "R \<le> 2 powi 400"
    and c: "1 \<le> c" "real_of_int c + 1 \<le> M"
    and m: "0 < m" "near 1 m M" "M \<le> 2 ^ 48"
  shows "fl_round
           (f64_mul
              (f64_div
                 (f64_div
                    (f64_mul
                       (f64_div (f64_mul (f64_div (f64_mul (Fin (of_int c)) (Fin v)) (Fin m)) (Fin R))
                          (f64_sub (Fin v) (f64_div (f64_mul (Fin (of_int c)) (Fin v)) (Fin m))))
                       (Fin v))
                    (f64_add (Fin R)
                       (f64_div (f64_mul (f64_div (f64_mul (Fin (of_int c)) (Fin v)) (Fin m)) (Fin R))
                          (f64_sub (Fin v) (f64_div (f64_mul (Fin (of_int c)) (Fin v)) (Fin m))))))
                 (Fin v))
              (Fin m)) = Fin (of_int c)"
proof -
  have p400: "(0::real) < 2 powi (- 400)" by simp
  from v R p400 have vpos: "0 < v" and Rpos: "0 < R" by linarith+
  from c have c1: "1 \<le> real_of_int c" by simp
  from c1 c(2) have Mpos: "0 < M" and M1: "1 \<le> M" by linarith+
  from resistance_of_code [OF v R c1 c(2) m] obtain V \<rho>
    where V: "f64_div (f64_mul (Fin (of_int c)) (Fin v)) (Fin m) = Fin V"
      and \<rho>: "f64_div (f64_mul (Fin V) (Fin R)) (f64_sub (Fin v) (Fin V)) = Fin \<rho>"
      and pos: "0 < V" "V < v" "0 < \<rho>"
      and nV: "near 3 (V / v) (of_int c / M)"
      and n\<rho>: "near 3 \<rho> (V * R / (v - V))"
      and ratio: "R \<le> \<rho> * 2 ^ 60" "\<rho> \<le> R * 2 ^ 60"
    by blast
  from code_back [OF v R pos(3) ratio m(1,2) M1 m(3)] obtain w
    where w: "f64_mul (f64_div (f64_div (f64_mul (Fin \<rho>) (Fin v)) (f64_add (Fin R) (Fin \<rho>)))
                         (Fin v)) (Fin m) = Fin w"
      and nw: "near 6 w (\<rho> / (R + \<rho>) * M)"
    by blast
  have r0pos: "0 < V * R / (v - V)" using pos Rpos by simp
  have sat: "V * R / (v - V) / (R + V * R / (v - V)) = V / v"
  proof -
    from pos have d: "v - V \<noteq> 0" by simp
    have "R + V * R / (v - V) = R * v / (v - V)" using d by (simp add: field_simps)
    then show ?thesis using d Rpos vpos by simp
  qed
  from near_saturation [OF n\<rho> pos(3) r0pos Rpos]
  have "near 3 (\<rho> / (R + \<rho>)) (V / v)" by (simp only: sat)
  from near_trans [OF this nV] have g: "near 6 (\<rho> / (R + \<rho>)) (of_int c / M)" by simp
  have "0 < \<rho> / (R + \<rho>)" "0 < of_int c / M" using pos Rpos c1 Mpos by simp_all
  from near_mult [OF g near_refl [of M 0] this Mpos Mpos] Mpos
  have "near 6 (\<rho> / (R + \<rho>) * M) (of_int c)" by simp
  from near_trans [OF nw this] have n12: "near 12 w (of_int c)" by simp
  from c(2) m(3) have "real_of_int c \<le> 2 ^ 48" by linarith
  from near_to_code [OF n12 c(1) this] have "fl_round (Fin w) = Fin (of_int c)" .
  then show ?thesis by (simp only: V \<rho> w)
qed

text \<open>Evaluating one rounding, the binade of the exact value being given.\<close>

lemma rnd_eval:
  assumes "x \<noteq> 0" and "2 powi e \<le> \<bar>x\<bar>" and "\<bar>x\<bar> < 2 powi (e + 1)"
    and "of_int (round_half_even (x / 2 powi (max (e - 52) (- 1074)))) *
           2 powi (max (e - 52) (- 1074)) = y"
    and "y \<noteq> 0" and "\<bar>y\<bar> < 2 ^ 1024"
  shows "rnd (Fin x) = Fin y"
  using round_double_eval [OF assms(1-3)] assms(4-6)
  by (simp add: fin_signed_def)

lemma wide_full_scale: "full_scale 51 = Inr (Fin 2251799813685247)"
proof -
  have "rnd (Fin (2 ^ nat 51 - 1)) = Fin 2251799813685247"
    by (rule rnd_eval [where e = "50"]) (simp_all add: round_half_even_def)
  then show ?thesis by (simp add: full_scale_def)
qed

lemma wide_step1: "f64_mul (Fin 1158712694885373) (Fin (3715469692580659 / 1125899906842624)) = Fin (7647503786243461 / 2)"
proof -
  have "rnd (Fin (1158712694885373 * (3715469692580659 / 1125899906842624))) = Fin (7647503786243461 / 2)"
    by (rule rnd_eval [where e = "51"]) (simp_all add: round_half_even_def)
  then show ?thesis by (simp add: f64_mul_def fl_mul_def fin_signed_def)
qed

lemma wide_step2: "f64_div (Fin (7647503786243461 / 2)) (Fin 2251799813685247) = Fin (955937973280433 / 562949953421312)"
proof -
  have "rnd (Fin ((7647503786243461 / 2) / (2251799813685247))) = Fin (955937973280433 / 562949953421312)"
    by (rule rnd_eval [where e = "0"]) (simp_all add: round_half_even_def)
  then show ?thesis by (simp add: f64_div_def fl_div_def fin_signed_def)
qed

lemma wide_step3: "f64_mul (Fin (955937973280433 / 562949953421312)) (Fin 4700) = Fin (8775211864097725 / 1099511627776)"
proof -
  have "rnd (Fin ((955937973280433 / 562949953421312) * (4700))) = Fin (8775211864097725 / 1099511627776)"
    by (rule rnd_eval [where e = "12"]) (simp_all add: round_half_even_def)
  then show ?thesis by (simp add: f64_mul_def fl_mul_def fin_signed_def)
qed

lemma wide_step4: "f64_sub (Fin (3715469692580659 / 1125899906842624)) (Fin (955937973280433 / 562949953421312)) = Fin (1803593746019793 / 1125899906842624)"
proof -
  have "rnd (Fin ((3715469692580659 / 1125899906842624) - (955937973280433 / 562949953421312))) = Fin (1803593746019793 / 1125899906842624)"
    by (rule rnd_eval [where e = "0"]) (simp_all add: round_half_even_def)
  then show ?thesis by (simp add: f64_sub_def fl_sub_def fin_signed_def)
qed

lemma wide_step5: "f64_div (Fin (8775211864097725 / 1099511627776)) (Fin (1803593746019793 / 1125899906842624)) = Fin (5477957684270819 / 1099511627776)"
proof -
  have "rnd (Fin ((8775211864097725 / 1099511627776) / (1803593746019793 / 1125899906842624))) = Fin (5477957684270819 / 1099511627776)"
    by (rule rnd_eval [where e = "12"]) (simp_all add: round_half_even_def)
  then show ?thesis by (simp add: f64_div_def fl_div_def fin_signed_def)
qed

lemma wide_step6: "f64_mul (Fin (5477957684270819 / 1099511627776)) (Fin (3715469692580659 / 1125899906842624)) = Fin (4519315089523425 / 274877906944)"
proof -
  have "rnd (Fin ((5477957684270819 / 1099511627776) * (3715469692580659 / 1125899906842624))) = Fin (4519315089523425 / 274877906944)"
    by (rule rnd_eval [where e = "14"]) (simp_all add: round_half_even_def)
  then show ?thesis by (simp add: f64_mul_def fl_mul_def fin_signed_def)
qed

lemma wide_step7: "f64_add (Fin 4700) (Fin (5477957684270819 / 1099511627776)) = Fin (2661415583704505 / 274877906944)"
proof -
  have "rnd (Fin (4700 + (5477957684270819 / 1099511627776))) = Fin (2661415583704505 / 274877906944)"
    by (rule rnd_eval [where e = "13"]) (simp_all add: round_half_even_def)
  then show ?thesis by (simp add: f64_add_def fl_add.simps fin_signed_def)
qed

lemma wide_step8: "f64_div (Fin (4519315089523425 / 274877906944)) (Fin (2661415583704505 / 274877906944)) = Fin (3823751893121731 / 2251799813685248)"
proof -
  have "rnd (Fin ((4519315089523425 / 274877906944) / (2661415583704505 / 274877906944))) = Fin (3823751893121731 / 2251799813685248)"
    by (rule rnd_eval [where e = "0"]) (simp_all add: round_half_even_def)
  then show ?thesis by (simp add: f64_div_def fl_div_def fin_signed_def)
qed

lemma wide_step9: "f64_div (Fin (3823751893121731 / 2251799813685248)) (Fin (3715469692580659 / 1125899906842624)) = Fin (1158712694885373 / 2251799813685248)"
proof -
  have "rnd (Fin ((3823751893121731 / 2251799813685248) / (3715469692580659 / 1125899906842624))) = Fin (1158712694885373 / 2251799813685248)"
    by (rule rnd_eval [where e = "-1"]) (simp_all add: round_half_even_def)
  then show ?thesis by (simp add: f64_div_def fl_div_def fin_signed_def)
qed

lemma wide_step10: "f64_mul (Fin (1158712694885373 / 2251799813685248)) (Fin 2251799813685247) = Fin (2317425389770745 / 2)"
proof -
  have "rnd (Fin ((1158712694885373 / 2251799813685248) * (2251799813685247))) = Fin (2317425389770745 / 2)"
    by (rule rnd_eval [where e = "50"]) (simp_all add: round_half_even_def)
  then show ?thesis by (simp add: f64_mul_def fl_mul_def fin_signed_def)
qed

lemma wide_round: "fl_round (Fin (2317425389770745 / 2)) = Fin 1158712694885372"
  by (simp add: round_half_even_def fin_signed_def)

lemma wide_roundtrip:
  "adc_to_resistance [Fin 1158712694885373] 51 (Fin (3715469692580659 / 1125899906842624)) (Fin 4700) = Inr [Fin (5477957684270819 / 1099511627776)] \<and>
   resistance_to_adc [Fin (5477957684270819 / 1099511627776)] 51 (Fin (3715469692580659 / 1125899906842624)) (Fin 4700) = Inr [Fin 1158712694885372]"
  by (simp only: adc_to_resistance_def resistance_to_adc_def wide_full_scale sum.case Let_def
      list.map wide_step1 wide_step2 wide_step3 wide_step4 wide_step5 wide_step6 wide_step7 wide_step8 wide_step9 wide_step10 wide_round simp_thms)

lemma tiny_full_scale: "full_scale 12 = Inr (Fin 4095)"
proof -
  have "rnd (Fin (2 ^ nat 12 - 1)) = Fin 4095"
    by (rule rnd_eval [where e = "11"]) (simp_all add: round_half_even_def)
  then show ?thesis by (simp add: full_scale_def)
qed

lemma tiny_step1: "f64_mul (Fin 2048) (Fin (3715469692580659 / 1125899906842624)) = Fin (3715469692580659 / 549755813888)"
proof -
  have "rnd (Fin (2048 * (3715469692580659 / 1125899906842624))) = Fin (3715469692580659 / 549755813888)"
    by (rule rnd_eval [where e = "12"]) (simp_all add: round_half_even_def)
  then show ?thesis by (simp add: f64_mul_def fl_mul_def fin_signed_def)
qed

lemma tiny_step2: "f64_div (Fin (3715469692580659 / 549755813888)) (Fin 4095) = Fin (1858188505593453 / 1125899906842624)"
proof -
  have "rnd (Fin ((3715469692580659 / 549755813888) / (4095))) = Fin (1858188505593453 / 1125899906842624)"
    by (rule rnd_eval [where e = "0"]) (simp_all add: round_half_even_def)
  then show ?thesis by (simp add: f64_div_def fl_div_def fin_signed_def)
qed

lemma tiny_step3: "f64_mul (Fin (1858188505593453 / 1125899906842624)) (Fin (2 powi (- 1074))) = Fin (2 powi (- 1073))"
proof -
  have "rnd (Fin ((1858188505593453 / 1125899906842624) * (2 powi (- 1074)))) = Fin (2 powi (- 1073))"
    by (rule rnd_eval [where e = "-1074"]) (simp_all add: round_half_even_def)
  then show ?thesis by (simp add: f64_mul_def fl_mul_def fin_signed_def)
qed

lemma tiny_step4: "f64_sub (Fin (3715469692580659 / 1125899906842624)) (Fin (1858188505593453 / 1125899906842624)) = Fin (928640593493603 / 562949953421312)"
proof -
  have "rnd (Fin ((3715469692580659 / 1125899906842624) - (1858188505593453 / 1125899906842624))) = Fin (928640593493603 / 562949953421312)"
    by (rule rnd_eval [where e = "0"]) (simp_all add: round_half_even_def)
  then show ?thesis by (simp add: f64_sub_def fl_sub_def fin_signed_def)
qed

lemma tiny_step5: "f64_div (Fin (2 powi (- 1073))) (Fin (928640593493603 / 562949953421312)) = Fin (2 powi (- 1074))"
proof -
  have "rnd (Fin ((2 powi (- 1073)) / (928640593493603 / 562949953421312))) = Fin (2 powi (- 1074))"
    by (rule rnd_eval [where e = "-1074"]) (simp_all add: round_half_even_def)
  then show ?thesis by (simp add: f64_div_def fl_div_def fin_signed_def)
qed

lemma tiny_step6: "f64_mul (Fin (2 powi (- 1074))) (Fin (3715469692580659 / 1125899906842624)) = Fin (3 * 2 powi (- 1074))"
proof -
  have "rnd (Fin ((2 powi (- 1074)) * (3715469692580659 / 1125899906842624))) = Fin (3 * 2 powi (- 1074))"
    by (rule rnd_eval [where e = "-1073"]) (simp_all add: round_half_even_def)
  then show ?thesis by (simp add: f64_mul_def fl_mul_def fin_signed_def)
qed

lemma tiny_step7: "f64_add (Fin (2 powi (- 1074))) (Fin (2 powi (- 1074))) = Fin (2 powi (- 1073))"
proof -
  have "rnd (Fin ((2 powi (- 1074)) + (2 powi (- 1074)))) = Fin (2 powi (- 1073))"
    by (rule rnd_eval [where e = "-1073"]) (simp_all add: round_half_even_def)
  then show ?thesis by (simp add: f64_add_def fl_add.simps fin_signed_def)
qed

lemma tiny_step8: "f64_div (Fin (3 * 2 powi (- 1074))) (Fin (2 powi (- 1073))) = Fin (3 / 2)"
proof -
  have "rnd (Fin ((3 * 2 powi (- 1074)) / (2 powi (- 1073)))) = Fin (3 / 2)"
    by (rule rnd_eval [where e = "0"]) (simp_all add: round_half_even_def)
  then show ?thesis by (simp add: f64_div_def fl_div_def fin_signed_def)
qed

lemma tiny_step9: "f64_div (Fin (3 / 2)) (Fin (3715469692580659 / 1125899906842624)) = Fin (1023545369856931 / 2251799813685248)"
proof -
  have "rnd (Fin ((3 / 2) / (3715469692580659 / 1125899906842624))) = Fin (1023545369856931 / 2251799813685248)"
    by (rule rnd_eval [where e = "-2"]) (simp_all add: round_half_even_def)
  then show ?thesis by (simp add: f64_div_def fl_div_def fin_signed_def)
qed

lemma tiny_step10: "f64_mul (Fin (1023545369856931 / 2251799813685248)) (Fin 4095) = Fin (4093181923402473 / 2199023255552)"
proof -
  have "rnd (Fin ((1023545369856931 / 2251799813685248) * (4095))) = Fin (4093181923402473 / 2199023255552)"
    by (rule rnd_eval [where e = "10"]) (simp_all add: round_half_even_def)
  then show ?thesis by (simp add: f64_mul_def fl_mul_def fin_signed_def)
qed

lemma tiny_round: "fl_round (Fin (4093181923402473 / 2199023255552)) = Fin 1861"
  by (simp add: round_half_even_def fin_signed_def)

lemma tiny_roundtrip:
  "adc_to_resistance [Fin 2048] 12 (Fin (3715469692580659 / 1125899906842624)) (Fin (2 powi (- 1074))) = Inr [Fin (2 powi (- 1074))] \<and>
   resistance_to_adc [Fin (2 powi (- 1074))] 12 (Fin (3715469692580659 / 1125899906842624)) (Fin (2 powi (- 1074))) = Inr [Fin 1861]"
  by (simp only: adc_to_resistance_def resistance_to_adc_def tiny_full_scale sum.case Let_def
      list.map tiny_step1 tiny_step2 tiny_step3 tiny_step4 tiny_step5 tiny_step6 tiny_step7 tiny_step8 tiny_step9 tiny_step10 tiny_round simp_thms)

lemma huge_roundtrip:
  "adc_to_resistance [Fin 2] 2 (Fin (2 ^ 1023)) (Fin 1) = Inr [NaN] \<and>
   resistance_to_adc [NaN] 2 (Fin (2 ^ 1023)) (Fin 1) = Inr [NaN]"
proof -
  have fs: "full_scale 2 = Inr (Fin 3)"
  proof -
    have "rnd (Fin (2 ^ nat 2 - 1)) = Fin 3"
      by (rule rnd_eval [where e = 1]) (simp_all add: round_half_even_def)
    then show ?thesis by (simp add: full_scale_def)
  qed
  have "round_double (2 * 2 ^ 1023) = 2 ^ 1024"
    using round_double_eval [of "2 * 2 ^ 1023" 1024] by (simp add: round_half_even_def)
  then have s1: "f64_mul (Fin 2) (Fin (2 ^ 1023)) = PInf"
    by (simp add: f64_mul_def fl_mul_def fin_signed_def inf_of_def)
  have s2: "f64_div PInf (Fin 3) = PInf" by (simp add: f64_div_def fl_div_def inf_of_def)
  have s3: "f64_mul PInf (Fin 1) = PInf" by (simp add: f64_mul_def fl_mul_def inf_of_def)
  have s4: "f64_sub (Fin (2 ^ 1023)) PInf = NInf" by (simp add: f64_sub_def fl_sub_def)
  have s5: "f64_div PInf NInf = NaN" by (simp add: f64_div_def fl_div_def)
  have t1: "f64_mul NaN x = NaN" "f64_div NaN x = NaN" "f64_add x NaN = NaN" for x
    by (cases x; simp add: f64_mul_def f64_div_def f64_add_def fl_mul_def fl_div_def)+
  show ?thesis
    by (simp only: adc_to_resistance_def resistance_to_adc_def fs sum.case Let_def list.map
        s1 s2 s3 s4 s5 t1 fl_round.simps simp_thms)
qed

text \<open>
  Claim C7 as stated fails.  In doubles the round trip loses the last bit of the code
  1158712694885373 at 51 bits (reference voltage 3.3, pull-up resistance 4700); with the
  smallest positive double as pull-up resistance the code 2048 at 12 bits comes back as
  1861; and with the reference voltage \<open>2 ^ 1023\<close> the first product overflows and the
  code 2 at 2 bits comes back as NaN.  The lemmas above check the roundings of each trip.
\<close>

theorem adc_roundtrip_counterexample:
  "(adc_to_resistance [Fin 1158712694885373] 51 (Fin (3715469692580659 / 1125899906842624))
       (Fin 4700) = Inr [Fin (5477957684270819 / 1099511627776)] \<and>
    resistance_to_adc [Fin (5477957684270819 / 1099511627776)] 51
       (Fin (3715469692580659 / 1125899906842624)) (Fin 4700) = Inr [Fin 1158712694885372]) \<and>
   (adc_to_resistance [Fin 2048] 12 (Fin (3715469692580659 / 1125899906842624))
       (Fin (2 powi (- 1074))) = Inr [Fin (2 powi (- 1074))] \<and>
    resistance_to_adc [Fin (2 powi (- 1074))] 12 (Fin (3715469692580659 / 1125899906842624))
       (Fin (2 powi (- 1074))) = Inr [Fin 1861]) \<and>
   (adc_to_resistance [Fin 2] 2 (Fin (2 ^ 1023)) (Fin 1) = Inr [NaN] \<and>
    resistance_to_adc [NaN] 2 (Fin (2 ^ 1023)) (Fin 1) = Inr [NaN])"
  using wide_roundtrip tiny_roundtrip huge_roundtrip by blast

text \<open>
  Claim C7, amended.  For a resolution from 1 to 48 bits and a reference voltage and a
  pull-up resistance between \<open>2 ^ -400\<close> and \<open>2 ^ 400\<close>, every integer code from 1 to
  \<open>2 ^ bits - 2\<close> is returned unchanged by \<open>adc_to_resistance\<close> followed by
  \<open>resistance_to_adc\<close>, computed in doubles: the value rounded at the end is within
  twelve roundings of the code, less than one half away.
\<close>

theorem adc_roundtrip:
  assumes "1 \<le> adc_resolution" and "adc_resolution \<le> 48"
    and "2 powi (- 400) \<le> v" and "v \<le> 2 powi 400"
    and "2 powi (- 400) \<le> R" and "R \<le> 2 powi 400"
    and "\<forall>c \<in> set codes. 1 \<le> c \<and> c \<le> 2 ^ nat adc_resolution - 2"
  shows "\<exists>rs. adc_to_resistance (map (\<lambda>c. Fin (of_int c)) codes) adc_resolution (Fin v) (Fin R)
                = Inr rs \<and>
              resistance_to_adc rs adc_resolution (Fin v) (Fin R) =
                Inr (map (\<lambda>c. Fin (of_int c)) codes)"
proof -
  from full_scale_near [OF assms(1,2)] obtain m
    where fs: "full_scale adc_resolution = Inr (Fin m)"
      and m: "0 < m" "near 1 m (2 ^ nat adc_resolution - 1)"
        "(2::real) ^ nat adc_resolution - 1 \<le> 2 ^ 48"
    by blast
  have one: "fl_round
           (f64_mul
              (f64_div
                 (f64_div
                    (f64_mul
                       (f64_div (f64_mul (f64_div (f64_mul (Fin (of_int c)) (Fin v)) (Fin m)) (Fin R))
                          (f64_sub (Fin v) (f64_div (f64_mul (Fin (of_int c)) (Fin v)) (Fin m))))
                       (Fin v))
                    (f64_add (Fin R)
                       (f64_div (f64_mul (f64_div (f64_mul (Fin (of_int c)) (Fin v)) (Fin m)) (Fin R))
                          (f64_sub (Fin v) (f64_div (f64_mul (Fin (of_int c)) (Fin v)) (Fin m))))))
                 (Fin v))
              (Fin m)) = Fin (of_int c)"
    if "c \<in> set codes" for c
  proof -
    from assms(7) that have lo: "1 \<le> c" and hi: "c \<le> 2 ^ nat adc_resolution - 2" by auto
    from hi have "real_of_int c \<le> real_of_int (2 ^ nat adc_resolution - 2)"
      by (simp only: of_int_le_iff)
    then have "real_of_int c + 1 \<le> 2 ^ nat adc_resolution - 1" by simp
    from roundtrip_one [OF assms(3-6) lo this m] show ?thesis .
  qed
  have "resistance_to_adc
          (map (\<lambda>V. f64_div (f64_mul V (Fin R)) (f64_sub (Fin v) V))
             (map (\<lambda>a. f64_div (f64_mul a (Fin v)) (Fin m)) (map (\<lambda>c. Fin (of_int c)) codes)))
          adc_resolution (Fin v) (Fin R) = Inr (map (\<lambda>c. Fin (of_int c)) codes)"
    unfolding resistance_to_adc_def Let_def fs map_map comp_def
    by (simp add: one cong: map_cong)
  then show ?thesis
    by (simp add: adc_to_resistance_def fs)
qed

theorem adc_roundtrip_witness:
  "\<exists>rs. adc_to_resistance [Fin 1, Fin 2048, Fin 4094] 12 (Fin (33 / 10)) (Fin 4700) = Inr rs \<and>
        resistance_to_adc rs 12 (Fin (33 / 10)) (Fin 4700) = Inr [Fin 1, Fin 2048, Fin 4094]"
proof -
  have h1: "(1::int) \<le> 12" and h2: "(12::int) \<le> 48" by simp_all
  have h3: "2 powi (- 400) \<le> (33 / 10 :: real)" and h4: "(33 / 10 :: real) \<le> 2 powi 400"
    by simp_all
  have h5: "2 powi (- 400) \<le> (4700 :: real)" and h6: "(4700 :: real) \<le> 2 powi 400"
    by simp_all
  have h7: "\<forall>c \<in> set [1, 2048, 4094 :: int]. 1 \<le> c \<and> c \<le> 2 ^ nat 12 - 2" by simp
  from adc_roundtrip [OF h1 h2 h3 h4 h5 h6 h7] show ?thesis by simp
qed

section \<open>The table builders\<close>

lemma sample_collect_eval:
  "sample_resistances [Fin 0] [Fin 1, Fin 1] [0, 1] 1 (Fin (1 / 1000000)) =
     Inr [Fin (1 / 1000000)]"
  by (simp add: sample_resistances_def eval2)

text \<open>A resistance far below the pull-up resistance gives the code 0.\<close>

lemma resistance_to_adc_zero:
  assumes "1 \<le> bits" and "bits \<le> 48"
    and v: "2 powi (- 400) \<le> v" "v \<le> 2 powi 400"
    and R: "2 powi (- 400) \<le> R" "R \<le> 2 powi 400"
    and r: "0 < r" "R \<le> r * 2 ^ 60" "r \<le> R * 2 ^ 60"
    and small: "r / (R + r) * (2 ^ nat bits - 1) < 1 / 4"
  shows "resistance_to_adc [Fin r] bits (Fin v) (Fin R) = Inr [Fin 0]"
proof -
  from full_scale_near [OF assms(1,2)] obtain m
    where fs: "full_scale bits = Inr (Fin m)"
      and m: "0 < m" "near 1 m (2 ^ nat bits - 1)" "(1::real) \<le> 2 ^ nat bits - 1"
        "(2::real) ^ nat bits - 1 \<le> 2 ^ 48"
    by blast
  from code_back [OF v R r m] obtain w
    where w: "f64_mul (f64_div (f64_div (f64_mul (Fin r) (Fin v)) (f64_add (Fin R) (Fin r)))
                         (Fin v)) (Fin m) = Fin w"
      and wpos: "0 < w" and nw: "near 6 w (r / (R + r) * (2 ^ nat bits - 1))"
    by blast
  have p400: "(0::real) < 2 powi (- 400)" by simp
  with R have Rpos: "0 < R" by linarith
  define X where "X = r / (R + r) * (2 ^ nat bits - 1)"
  have "0 < X" using r(1) Rpos m(3) by (simp add: X_def)
  from near_half(2) [OF nw [folded X_def] _ wpos this] have "w \<le> 2 * X" by simp
  moreover from small have "X < 1 / 4" by (simp only: X_def)
  ultimately have "w < 1 / 2" by linarith
  with wpos round_half_even_unique [of 0 w] have "round_half_even w = 0" by simp
  with wpos have "fl_round (Fin w) = Fin 0" by (simp add: fin_signed_def zero_of_def)
  then show ?thesis by (simp add: resistance_to_adc_def fs w)
qed

text \<open>
  Claim C1.  Both table builders call the inverse model with the literal \<open>True\<close> for
  the unit flag.  For the sample temperature 0, the coefficients \<open>[1, 1]\<close>, the
  exponents \<open>[0, 1]\<close> and one iteration, the builders called with the flag \<open>False\<close>
  (Kelvin) give the row of the Celsius inversion (the floor \<open>1e-6\<close>, ADC code 0), where
  the Kelvin inversion gives the resistance 2.
\<close>

theorem lut_ignores_unit_flag:
  "steinhart_hart_to_resistance_lut [Fin 0] [Fin 1, Fin 1] [0, 1] False 1 (Fin (1 / 1000000)) =
     Inr [(Fin 0, Fin (1 / 1000000))] \<and>
   steinhart_hart_to_adc_lut [Fin 0] 10 (Fin (33 / 10)) (Fin 4700) [Fin 1, Fin 1] [0, 1] False 1
       (Fin (1 / 1000000)) = Inr [(Fin 0, Fin 0)] \<and>
   inverse_steinhart_hart (Fin 0) [Fin 1, Fin 1] [0, 1] (PyFloat (Fin 1)) False
      (PyFloat (Fin (1 / 1000000))) 1 (Fin (1 / 1000000)) = Inr (NpFloat (Fin 2))"
proof (intro conjI)
  show "steinhart_hart_to_resistance_lut [Fin 0] [Fin 1, Fin 1] [0, 1] False 1
          (Fin (1 / 1000000)) = Inr [(Fin 0, Fin (1 / 1000000))]"
    by (simp add: steinhart_hart_to_resistance_lut_def sample_collect_eval)
next
  have "resistance_to_adc [Fin (1 / 1000000)] 10 (Fin (33 / 10)) (Fin 4700) = Inr [Fin 0]"
    by (rule resistance_to_adc_zero) simp_all
  then show "steinhart_hart_to_adc_lut [Fin 0] 10 (Fin (33 / 10)) (Fin 4700) [Fin 1, Fin 1]
          [0, 1] False 1 (Fin (1 / 1000000)) = Inr [(Fin 0, Fin 0)]"
    by (simp add: steinhart_hart_to_adc_lut_def sample_collect_eval)
next
  show "inverse_steinhart_hart (Fin 0) [Fin 1, Fin 1] [0, 1] (PyFloat (Fin 1)) False
      (PyFloat (Fin (1 / 1000000))) 1 (Fin (1 / 1000000)) = Inr (NpFloat (Fin 2))"
    by (simp add: eval2)
qed

lemma builders_flag_unused:
  "steinhart_hart_to_resistance_lut ss cs ts flag mi tol =
     steinhart_hart_to_resistance_lut ss cs ts True mi tol"
  "steinhart_hart_to_adc_lut ss bits v pr cs ts flag mi tol =
     steinhart_hart_to_adc_lut ss bits v pr cs ts True mi tol"
  by (simp_all add: steinhart_hart_to_resistance_lut_def steinhart_hart_to_adc_lut_def)

section \<open>Preconditions of the fit\<close>

text \<open>
  Claim C6.  When the temperature and resistance arrays differ in length, when there are
  fewer measurements than exponents, or when the exponent list is empty,
  \<open>fit_steinhart_hart\<close> fails with the assertion message of the first violated check,
  whatever the solver: neither the design matrix nor the solver is reached.
\<close>

theorem fit_fails_fast:
  assumes "length temperature \<noteq> length resistance \<or> powers = [] \<or>
           length temperature < length powers"
  shows "fit_steinhart_hart lstsq temperature resistance powers temp_in_celsius =
           Inl (AssertionError
                  (if length temperature \<noteq> length resistance then pairs_msg
                   else if length temperature < length powers then count_msg
                   else coeff_msg))"
  using assms by (auto simp: fit_steinhart_hart_def)

theorem fit_fails_fast_witness:
  "fit_steinhart_hart (\<lambda>A b. Inr b) [Fin 25, Fin 50] [Fin 10000] [0, 1, 3] True =
     Inl (AssertionError pairs_msg) \<and>
   fit_steinhart_hart (\<lambda>A b. Inr b) [Fin 25, Fin 50] [Fin 10000, Fin 3600] [0, 1, 3] True =
     Inl (AssertionError count_msg) \<and>
   fit_steinhart_hart (\<lambda>A b. Inr b) [Fin 25, Fin 50] [Fin 10000, Fin 3600] [] True =
     Inl (AssertionError coeff_msg)"
proof -
  have h1: "length [Fin 25, Fin 50] \<noteq> length [Fin 10000] \<or> [0, 1, 3 :: int] = [] \<or>
            length [Fin 25, Fin 50] < length [0, 1, 3 :: int]" by simp
  have h2: "length [Fin 25, Fin 50] \<noteq> length [Fin 10000, Fin 3600] \<or> [0, 1, 3 :: int] = [] \<or>
            length [Fin 25, Fin 50] < length [0, 1, 3 :: int]" by simp
  have h3: "length [Fin 25, Fin 50] \<noteq> length [Fin 10000, Fin 3600] \<or> ([] :: int list) = [] \<or>
            length [Fin 25, Fin 50] < length ([] :: int list)" by simp
  from fit_fails_fast [OF h1, of "\<lambda>A b. Inr b" True]
       fit_fails_fast [OF h2, of "\<lambda>A b. Inr b" True]
       fit_fails_fast [OF h3, of "\<lambda>A b. Inr b" True]
  show ?thesis by simp
qed

section \<open>Device parameters\<close>

lemma design_matrix_single: "design_matrix [x] [p] = [[fl_pow x p]]"
  by (simp add: design_matrix_def set_column_def)

text \<open>With a source resolution of 0 bits the reading is divided by zero.\<close>

lemma adc_to_resistance_zero_bits:
  "adc_to_resistance [Fin 1] 0 (Fin (33 / 10)) (Fin 4700) = Inr [NaN]"
proof -
  have fs: "full_scale 0 = Inr (Fin 0)"
    by (simp add: full_scale_def round_double_def fin_signed_def zero_of_def)
  have "(2::real) powi (- 1022) \<le> 1 * (33 / 10)" "(1::real) * (33 / 10) \<le> 2 powi 1023"
    by simp_all
  from f64_mul_pos [OF _ _ this] obtain t
    where t: "f64_mul (Fin 1) (Fin (33 / 10)) = Fin t" "0 < t" by auto
  from t(2) have "f64_div (Fin t) (Fin 0) = PInf"
    by (simp add: f64_div_def fl_div_def inf_of_def)
  with t(1) have s1: "f64_div (f64_mul (Fin 1) (Fin (33 / 10))) (Fin 0) = PInf" by simp
  have s2: "f64_mul PInf (Fin 4700) = PInf" by (simp add: f64_mul_def fl_mul_def inf_of_def)
  have s3: "f64_sub (Fin (33 / 10)) PInf = NInf" by (simp add: f64_sub_def fl_sub_def)
  have s4: "f64_div PInf NInf = NaN" by (simp add: f64_div_def fl_div_def)
  show ?thesis
    by (simp only: adc_to_resistance_def fs sum.case Let_def list.map s1 s2 s3 s4)
qed

text \<open>
  Claim C9 as stated fails for \<open>fit_adc_lut\<close>.  With a source resolution of 0 bits it
  converts the readings (the divisor \<open>2 ** 0 - 1\<close> is zero), fits and returns a table.
  With a negative reference voltage and fewer measurements than exponents, the failure it
  reports is the one of the fit, which runs on the converted readings.
\<close>

theorem device_checks_counterexample:
  "fit_adc_lut (\<lambda>A b. Inr b) [Fin 25] [Fin 25] [Fin 1] 0 10 (Fin (33 / 10)) (Fin 4700) [0]
      True 0 (Fin (1 / 1000000)) = Inr ([(Fin 25, Fin 0)], [Fin (100 / 29815)]) \<and>
   fit_adc_lut (\<lambda>A b. Inr b) [Fin 25] [Fin 25] [Fin 2048] 12 10 (Fin (- (33 / 10))) (Fin 4700) [0, 1, 3]
      True 1000 (Fin (1 / 1000000)) = Inl (AssertionError count_msg)"
proof (rule conjI)
  have code0: "resistance_to_adc [Fin 1] 10 (Fin (33 / 10)) (Fin 4700) = Inr [Fin 0]"
    by (rule resistance_to_adc_zero) simp_all
  show "fit_adc_lut (\<lambda>A b. Inr b) [Fin 25] [Fin 25] [Fin 1] 0 10 (Fin (33 / 10)) (Fin 4700) [0]
      True 0 (Fin (1 / 1000000)) = Inr ([(Fin 25, Fin 0)], [Fin (100 / 29815)])"
    by (simp add: fit_adc_lut_def adc_to_resistance_zero_bits fit_steinhart_hart_def
        design_matrix_single inv_temps_def steinhart_hart_to_adc_lut_def sample_resistances_def
        inverse_steinhart_hart_def code0 fl_div_def fl_pow_def fin_signed_def)
next
  obtain rs where "adc_to_resistance [Fin 2048] 12 (Fin (- (33 / 10))) (Fin 4700) = Inr rs"
    "length rs = 1"
    by (simp add: adc_to_resistance_def full_scale_def)
  then show "fit_adc_lut (\<lambda>A b. Inr b) [Fin 25] [Fin 25] [Fin 2048] 12 10 (Fin (- (33 / 10)))
      (Fin 4700) [0, 1, 3] True 1000 (Fin (1 / 1000000)) = Inl (AssertionError count_msg)"
    by (simp add: fit_adc_lut_def fit_steinhart_hart_def)
qed

text \<open>
  Claim C9, amended.  \<open>steinhart_hart_to_adc_lut\<close> fails with an assertion, before any
  inversion or conversion, when its resolution is below 1 or the reference voltage or the
  pull-up resistance is not positive.  \<open>fit_adc_lut\<close> checks its lists only: it
  converts the readings to resistances and fits first, so that a failure of the conversion
  or of the fit is what it reports, and the device parameters are checked afterwards by
  \<open>steinhart_hart_to_adc_lut\<close>, on the target resolution.
\<close>

theorem device_checks:
  "(adc_resolution < 1 \<or> \<not> fl_less (Fin 0) reference_voltage \<or>
      \<not> fl_less (Fin 0) pull_up_resistance \<longrightarrow>
    steinhart_hart_to_adc_lut sample_temps adc_resolution reference_voltage pull_up_resistance
        coefficients terms temp_in_celsius max_iterations tolerance =
      Inl (AssertionError
             (if coefficients = [] then coeff_msg
              else if adc_resolution < 1 then resolution_msg
              else if \<not> fl_less (Fin 0) reference_voltage then voltage_msg
              else pull_up_msg))) \<and>
   (measured_temps \<noteq> [] \<and> length measured_temps = length adc_values \<and> powers \<noteq> [] \<longrightarrow>
    (\<forall>e. adc_to_resistance adc_values source_adc_resolution reference_voltage
            pull_up_resistance = Inl e \<longrightarrow>
         fit_adc_lut lstsq measured_temps sample_temps adc_values source_adc_resolution
            adc_resolution reference_voltage pull_up_resistance powers temp_in_celsius
            max_iterations tolerance = Inl e) \<and>
    (\<forall>resistances. adc_to_resistance adc_values source_adc_resolution reference_voltage
            pull_up_resistance = Inr resistances \<longrightarrow>
       (\<forall>e. fit_steinhart_hart lstsq measured_temps resistances powers temp_in_celsius = Inl e
           \<longrightarrow>
         fit_adc_lut lstsq measured_temps sample_temps adc_values source_adc_resolution
            adc_resolution reference_voltage pull_up_resistance powers temp_in_celsius
            max_iterations tolerance = Inl e) \<and>
       (\<forall>sh_coeffs. fit_steinhart_hart lstsq measured_temps resistances powers
            temp_in_celsius = Inr sh_coeffs \<longrightarrow>
         fit_adc_lut lstsq measured_temps sample_temps adc_values source_adc_resolution
            adc_resolution reference_voltage pull_up_resistance powers temp_in_celsius
            max_iterations tolerance =
           (case steinhart_hart_to_adc_lut sample_temps adc_resolution reference_voltage
                   pull_up_resistance sh_coeffs powers temp_in_celsius max_iterations
                   tolerance of
              Inl e \<Rightarrow> Inl e
            | Inr lut \<Rightarrow> Inr (lut, sh_coeffs)))))"
  by (auto simp: steinhart_hart_to_adc_lut_def fit_adc_lut_def Let_def Suc_le_eq)

theorem device_checks_witness:
  "steinhart_hart_to_adc_lut [Fin 25] 10 (Fin 0) (Fin 4700) [Fin 1] [0] True 1000
      (Fin (1 / 1000000)) = Inl (AssertionError voltage_msg) \<and>
   fit_adc_lut (\<lambda>A b. Inl LinAlgError) [Fin 25] [Fin 25] [Fin 2048] 12 10 (Fin 0) (Fin 4700) [0]
      True 1000 (Fin (1 / 1000000)) = Inl LinAlgError \<and>
   fit_adc_lut (\<lambda>A b. Inr b) [Fin 25] [Fin 25] [Fin 2048] 12 10 (Fin 0) (Fin 4700) [0]
      True 1000 (Fin (1 / 1000000)) = Inl (AssertionError voltage_msg)"
proof -
  have h1: "(10::int) < 1 \<or> \<not> fl_less (Fin 0) (Fin 0) \<or> \<not> fl_less (Fin 0) (Fin 4700)"
    by simp
  have h2: "[Fin 25] \<noteq> [] \<and> length [Fin 25] = length [Fin 2048] \<and> [0::int] \<noteq> []" by simp
  obtain rs where rs: "adc_to_resistance [Fin 2048] 12 (Fin 0) (Fin 4700) = Inr rs"
    and len: "length rs = 1"
    by (simp add: adc_to_resistance_def full_scale_def)
  have h3: "fit_steinhart_hart (\<lambda>A b. Inl LinAlgError) [Fin 25] rs [0] True = Inl LinAlgError"
    using len by (simp add: fit_steinhart_hart_def)
  have h4: "fit_steinhart_hart (\<lambda>A b. Inr b) [Fin 25] rs [0] True =
            Inr (inv_temps [Fin 25] True)"
    using len by (simp add: fit_steinhart_hart_def)
  have a: "steinhart_hart_to_adc_lut [Fin 25] 10 (Fin 0) (Fin 4700) cs [0] True 1000
      (Fin (1 / 1000000)) = Inl (AssertionError (if cs = [] then coeff_msg else voltage_msg))"
    for cs
    using device_checks [of 10 "Fin 0" "Fin 4700" "[Fin 25]" cs "[0]" True 1000
        "Fin (1 / 1000000)"] h1 by simp
  have b: "fit_adc_lut (\<lambda>A b. Inl LinAlgError) [Fin 25] [Fin 25] [Fin 2048] 12 10 (Fin 0)
      (Fin 4700) [0] True 1000 (Fin (1 / 1000000)) = Inl LinAlgError"
    using device_checks [of 10 "Fin 0" "Fin 4700" "[Fin 25]" "[]" "[0]" True 1000
        "Fin (1 / 1000000)" "[Fin 25]" "[Fin 2048]" "[0]" 12 "\<lambda>A b. Inl LinAlgError"] h2 rs h3
    by blast
  have c: "fit_adc_lut (\<lambda>A b. Inr b) [Fin 25] [Fin 25] [Fin 2048] 12 10 (Fin 0)
      (Fin 4700) [0] True 1000 (Fin (1 / 1000000)) =
      (case steinhart_hart_to_adc_lut [Fin 25] 10 (Fin 0) (Fin 4700) (inv_temps [Fin 25] True)
          [0] True 1000 (Fin (1 / 1000000)) of Inl e \<Rightarrow> Inl e
       | Inr lut \<Rightarrow> Inr (lut, inv_temps [Fin 25] True))"
    using device_checks [of 10 "Fin 0" "Fin 4700" "[Fin 25]" "[]" "[0]" True 1000
        "Fin (1 / 1000000)" "[Fin 25]" "[Fin 2048]" "[0]" 12 "\<lambda>A b. Inr b"] h2 rs h4
    by blast
  from a [of "[Fin 1]"] b c a [of "inv_temps [Fin 25] True"] show ?thesis
    by (simp add: inv_temps_def)
qed

section \<open>The system handed to the solver\<close>

text \<open>
  The loop that fills the design matrix column by column leaves, in the row of the
  measurement \<open>i\<close> and the column of the exponent \<open>p\<close>, the value
  \<open>(ln resistance_i) ** p\<close>; once its assertions pass, the fit returns what the solver
  returns on that matrix and on the reciprocals of the temperatures in kelvin.
\<close>

lemma set_column_map:
  "set_column (map g xs) i (map h xs) = map (\<lambda>x. (g x)[i := h x]) xs"
  by (induction xs) (simp_all add: set_column_def)

lemma fill_columns:
  assumes "m \<le> length powers"
  shows "foldl (\<lambda>A i. set_column A i (map (\<lambda>l. fl_pow l (powers ! i)) log_res))
           (replicate (length log_res) (replicate (length powers) (Fin 0))) [0 ..< m] =
         map (\<lambda>l. map (fl_pow l) (take m powers) @ replicate (length powers - m) (Fin 0)) log_res"
  using assms
proof (induction m)
  case 0
  show ?case by (simp add: map_replicate_const)
next
  case (Suc m)
  then have m: "m < length powers" by simp
  then obtain d where d: "length powers - m = Suc d" "length powers - Suc m = d"
    by (cases "length powers - m") auto
  have row: "(map (fl_pow l) (take m powers) @ replicate (length powers - m) (Fin 0))
               [m := fl_pow l (powers ! m)] =
             map (fl_pow l) (take (Suc m) powers) @ replicate (length powers - Suc m) (Fin 0)"
    for l
    using m by (simp add: d list_update_append take_Suc_conv_app_nth)
  from Suc show ?case
    by (simp add: set_column_map row)
qed

lemma design_matrix_rows:
  "design_matrix log_res powers = map (\<lambda>l. map (fl_pow l) powers) log_res"
  using fill_columns [of "length powers" powers log_res]
  by (simp add: design_matrix_def)

lemma fit_calls_solver:
  assumes "length Ts = length Rs" and "powers \<noteq> []" and "length powers \<le> length Ts"
  shows "fit_steinhart_hart lstsq Ts Rs powers cel =
           lstsq (design_matrix (map fl_ln Rs) powers) (inv_temps Ts cel)"
  using assms by (cases powers) (simp_all add: fit_steinhart_hart_def)

end
